theory Spec2Isabelle
  imports Complex_Main "HOL-Library.Multiset" "HOL-Library.Char_ord" "HOL-Library.List_Lexorder"
    "HOL-Library.Product_Lexorder" "HOL-Library.Sublist" "HOL-Library.Log_Nat"
begin

section \<open>Numbers\<close>

text \<open>
  A JavaScript number is an IEEE 754 double: not a number, an infinity with its sign
  (\<open>Inf True\<close> is \<^verbatim>\<open>+Infinity\<close>), or a finite value, given here by the real number it
  denotes. The two zeros are one value: of the operations below only a division by zero
  could tell them apart, and it takes the zero as \<^verbatim>\<open>+0\<close>.
\<close>

datatype number = NaN | Inf bool | Num real

text \<open>\<open>pow2 k\<close> is \<open>2\<close> to the power \<open>k\<close>, for an integer \<open>k\<close> of either sign.\<close>

definition pow2 :: "int \<Rightarrow> real" where
  "pow2 k = (if 0 \<le> k then 2 ^ nat k else 1 / 2 ^ nat (- k))"

text \<open>
  The binary exponent of a positive real \<open>x\<close>: the \<open>e\<close> with \<open>2 ^ e \<le> x < 2 ^ (e + 1)\<close>,
  computed from the bit length of the integer part of \<open>x\<close>, or of \<open>1 / x\<close> below 1.
\<close>

definition expo :: "real \<Rightarrow> int" where
  "expo x =
     (if 1 \<le> x then bitlen \<lfloor>x\<rfloor> - 1
      else (let k = bitlen \<lfloor>1 / x\<rfloor> - 1 in if x = pow2 (- k) then - k else - k - 1))"

text \<open>Rounding to the nearest integer, a tie going to the even one.\<close>

definition roundHalfEven :: "real \<Rightarrow> int" where
  "roundHalfEven y =
     (let n = \<lfloor>y\<rfloor>; r = y - of_int n
      in if r < 1 / 2 then n else if 1 / 2 < r then n + 1 else if even n then n else n + 1)"

text \<open>
  The result of an arithmetic operation is the exact result rounded to the nearest
  double, a tie going to the even significand: a significand of 53 bits, so the spacing
  of the doubles around \<open>x\<close> is \<open>2 ^ (e - 52)\<close> for the exponent \<open>e\<close> of \<open>x\<close>, and
  \<open>2 ^ - 1074\<close> below \<open>2 ^ - 1022\<close>; a result that rounds to \<open>2 ^ 1024\<close> or more is an
  infinity.
\<close>

definition roundNumber :: "real \<Rightarrow> number" where
  "roundNumber x =
     (if x = 0 then Num 0
      else (let a = \<bar>x\<bar>;
                q = pow2 (max (expo a) (- 1022) - 52);
                m = of_int (roundHalfEven (a / q)) * q
            in if pow2 1024 \<le> m then Inf (0 < x) else Num (if 0 < x then m else - m)))"

text \<open>
  The number that a decimal numeral denotes, in the source or in an input field
  (\<^verbatim>\<open>parseFloat\<close>): the double nearest to it.
\<close>

definition decimal :: "real \<Rightarrow> number" where
  "decimal x = roundNumber x"


text \<open>Unary minus, and the test \<open>0 \<le> x\<close>, which \<^verbatim>\<open>NaN\<close> fails.\<close>

fun fneg :: "number \<Rightarrow> number" where
  "fneg (Num x) = Num (- x)"
| "fneg (Inf s) = Inf (\<not> s)"
| "fneg NaN = NaN"

definition nonneg :: "number \<Rightarrow> bool" where
  "nonneg n = (case n of Num x \<Rightarrow> 0 \<le> x | Inf s \<Rightarrow> s | NaN \<Rightarrow> False)"

text \<open>The operators \<^verbatim>\<open>+\<close>, \<^verbatim>\<open>-\<close>, \<^verbatim>\<open>*\<close>, \<^verbatim>\<open>/\<close> and \<^verbatim>\<open>>\<close> on numbers.\<close>

fun num_add :: "number \<Rightarrow> number \<Rightarrow> number" where
  "num_add (Num x) (Num y) = roundNumber (x + y)"
| "num_add (Inf a) (Inf b) = (if a = b then Inf a else NaN)"
| "num_add (Inf a) (Num y) = Inf a"
| "num_add (Num x) (Inf b) = Inf b"
| "num_add NaN y = NaN"
| "num_add x NaN = NaN"

definition num_sub :: "number \<Rightarrow> number \<Rightarrow> number" where
  "num_sub x y = num_add x (fneg y)"

fun num_mul :: "number \<Rightarrow> number \<Rightarrow> number" where
  "num_mul (Num x) (Num y) = roundNumber (x * y)"
| "num_mul (Inf a) (Inf b) = Inf (a = b)"
| "num_mul (Inf a) (Num y) = (if y = 0 then NaN else Inf (a = (0 < y)))"
| "num_mul (Num x) (Inf b) = (if x = 0 then NaN else Inf (b = (0 < x)))"
| "num_mul NaN y = NaN"
| "num_mul x NaN = NaN"

fun num_div :: "number \<Rightarrow> number \<Rightarrow> number" where
  "num_div (Num x) (Num y) =
     (if y = 0 then (if x = 0 then NaN else Inf (0 < x)) else roundNumber (x / y))"
| "num_div (Inf a) (Inf b) = NaN"
| "num_div (Inf a) (Num y) = Inf (a = (0 \<le> y))"
| "num_div (Num x) (Inf b) = Num 0"
| "num_div NaN y = NaN"
| "num_div x NaN = NaN"

fun num_gt :: "number \<Rightarrow> number \<Rightarrow> bool" where
  "num_gt (Num x) (Num y) = (y < x)"
| "num_gt (Inf a) (Inf b) = (a \<and> \<not> b)"
| "num_gt (Inf a) (Num y) = a"
| "num_gt (Num x) (Inf b) = (\<not> b)"
| "num_gt NaN y = False"
| "num_gt x NaN = False"

text \<open>\<^verbatim>\<open>Math.abs\<close> and \<^verbatim>\<open>Math.floor\<close>; the floor of a double is a double.\<close>

fun Math_abs :: "number \<Rightarrow> number" where
  "Math_abs (Num x) = Num \<bar>x\<bar>"
| "Math_abs (Inf a) = Inf True"
| "Math_abs NaN = NaN"

fun Math_floor :: "number \<Rightarrow> number" where
  "Math_floor (Num x) = Num (of_int \<lfloor>x\<rfloor>)"
| "Math_floor (Inf a) = Inf a"
| "Math_floor NaN = NaN"

text \<open>
  The position sizing calculator, whose claims are about the values of quotients and
  products, is modelled on this type, and so is the net P&L of the statistics engine
  (\<open>netPnL64\<close> below). The records of the statistics engine, the aggregations and the
  trade form hold their numbers as exact reals: a value there is finite, \<^verbatim>\<open>undefined\<close> is
  \<open>None\<close> of an \<open>option\<close>, and what is proved of them are counts, comparisons, case
  distinctions and sums over which collection of trades, not the digits of a rounded
  result.
\<close>

section \<open>Position sizing calculator (PositionCalculator.tsx)\<close>

text \<open>
  The lookup table of lot sizes. The instrument is a string of the component's state; a
  key that is not in the table reads \<^verbatim>\<open>undefined\<close>, here \<open>None\<close>.
\<close>

definition INDICES_LOT_SIZES :: "string \<Rightarrow> number option" where
  "INDICES_LOT_SIZES = map_of
     [(''NIFTY'', Num 75), (''BANKNIFTY'', Num 15), (''FINNIFTY'', Num 25),
      (''MIDCPNIFTY'', Num 50), (''SENSEX'', Num 10), (''EQUITY'', Num 1)]"

record calc_results =
  riskAmount :: number
  slPoints :: number
  qty :: number
  lots :: number
  totalValue :: number

text \<open>
  \<open>rawQty\<close> is the first value assigned to \<^verbatim>\<open>qty\<close>, before the lot-size adjustment.
\<close>

definition rawQty :: "number \<Rightarrow> number \<Rightarrow> number" where
  "rawQty risk sl = Math_floor (num_div risk sl)"

text \<open>
  The lot-size adjustment, returning \<open>(lots, qty)\<close>. The comparison
  \<^verbatim>\<open>lotSize > 1\<close> is false when \<^verbatim>\<open>lotSize\<close> is \<^verbatim>\<open>undefined\<close>.
\<close>

definition adjustLot :: "number option \<Rightarrow> number \<Rightarrow> number \<times> number" where
  "adjustLot lotSize q =
     (case lotSize of
        Some l \<Rightarrow>
          (if num_gt l (Num 1)
           then (Math_floor (num_div q l), num_mul (Math_floor (num_div q l)) l)
           else (q, q))
      | None \<Rightarrow> (q, q))"

definition results :: "number \<Rightarrow> number \<Rightarrow> number \<Rightarrow> number \<Rightarrow> string \<Rightarrow> calc_results" where
  "results capital riskPercent entryPrice stopLoss instrument =
     (let risk = num_div (num_mul capital riskPercent) (Num 100) in
      if num_gt entryPrice (Num 0) \<and> num_gt stopLoss (Num 0) then
        (let sl = Math_abs (num_sub entryPrice stopLoss) in
         if num_gt sl (Num 0) then
           (let (l, q) = adjustLot (INDICES_LOT_SIZES instrument) (rawQty risk sl) in
            \<lparr>riskAmount = risk, slPoints = sl, qty = q, lots = l,
             totalValue = num_mul q entryPrice\<rparr>)
         else \<lparr>riskAmount = risk, slPoints = sl, qty = Num 0, lots = Num 0, totalValue = Num 0\<rparr>)
      else \<lparr>riskAmount = risk, slPoints = Num 0, qty = Num 0, lots = Num 0, totalValue = Num 0\<rparr>)"

text \<open>The lot size the sizing uses: the table's entry, and 1 for an instrument without one.\<close>

definition lotSizeOf :: "string \<Rightarrow> real" where
  "lotSizeOf instrument =
     (case INDICES_LOT_SIZES instrument of Some (Num l) \<Rightarrow> l | _ \<Rightarrow> 1)"

section \<open>Data model (types.ts)\<close>

datatype TradeType = LONG | SHORT

datatype TradeStatus = OPEN | CLOSED | PENDING

text \<open>
  The fields \<^verbatim>\<open>id\<close>, \<^verbatim>\<open>type\<close>, \<^verbatim>\<open>setup\<close> and \<^verbatim>\<open>notes\<close> are renamed \<open>trade_id\<close>, \<open>trade_type\<close>,
  \<open>setup_label\<close> and \<open>trade_notes\<close>. An optional field is an \<open>option\<close>, \<open>None\<close> standing for \<^verbatim>\<open>undefined\<close>.
\<close>

record Trade =
  trade_id :: string
  symbol :: string
  trade_type :: TradeType
  status :: TradeStatus
  entryDate :: string
  expiryDate :: "string option"
  entryPrice :: real
  exitPrice :: "real option"
  quantity :: real
  stopLoss :: "real option"
  takeProfit :: "real option"
  pnl :: "real option"
  setup_label :: string
  trade_notes :: string
  tags :: "string list"

datatype Mood = Happy | Neutral | Sad | Frustrated | Disciplined

record DailyNote =
  note_date :: string
  content :: string
  mood :: "Mood option"

record DashboardStats =
  totalTrades :: nat
  winRate :: real
  netPnL :: real
  avgWin :: real
  avgLoss :: real
  profitFactor :: real
  maxWinStreak :: nat
  currentStreak :: int

section \<open>The host: dates and locale\<close>

text \<open>
  \<^verbatim>\<open>new Date(s)\<close> depends on the host's time zone and parser, and the
  \<^verbatim>\<open>toLocale...\<close> calls on its locale. A date object is the time value in milliseconds
  with the local calendar year and month index (0 to 11) read off it, or invalid; every
  getter of an invalid date is \<^verbatim>\<open>NaN\<close>, here \<open>None\<close>. The host is a parameter of every
  function that reads a date.
\<close>

datatype jsDate = InvalidDate | ValidDate int int nat

fun getTime :: "jsDate \<Rightarrow> int option" where
  "getTime InvalidDate = None"
| "getTime (ValidDate t y m) = Some t"

fun getFullYear :: "jsDate \<Rightarrow> int option" where
  "getFullYear InvalidDate = None"
| "getFullYear (ValidDate t y m) = Some y"

fun getMonth :: "jsDate \<Rightarrow> nat option" where
  "getMonth InvalidDate = None"
| "getMonth (ValidDate t y m) = Some m"

text \<open>
  \<open>newDate s\<close> is \<^verbatim>\<open>new Date(s)\<close>;
  \<open>shortDayLabel s\<close> is \<^verbatim>\<open>new Date(s).toLocaleDateString(undefined, {month: 'short', day: 'numeric'})\<close>;
  \<open>monthYearLabel y m\<close> is \<^verbatim>\<open>new Date(y, m).toLocaleString('default', {month: 'short', year: '2-digit'})\<close>
  with \<open>None\<close> for a \<^verbatim>\<open>NaN\<close> argument;
  \<open>monthLongName y m\<close> is \<^verbatim>\<open>toLocaleString('default', {month: 'long'})\<close> of a date in
  month \<open>m\<close> of year \<open>y\<close>.
\<close>

record host =
  newDate :: "string \<Rightarrow> jsDate"
  shortDayLabel :: "string \<Rightarrow> string"
  monthYearLabel :: "int option \<Rightarrow> int option \<Rightarrow> string"
  monthLongName :: "int \<Rightarrow> nat \<Rightarrow> string"

section \<open>Strings\<close>

text \<open>
  \<^verbatim>\<open>localeCompare\<close> is modelled as the comparison of the strings character by character.
  The program applies it to identifiers made by \<^verbatim>\<open>crypto.randomUUID\<close> (lower-case
  hexadecimal digits and hyphens) and to month keys (digits and hyphens), where the
  collation orders the hyphen before the digits and the digits before the letters, as
  the character codes do.
\<close>

definition localeCompare :: "string \<Rightarrow> string \<Rightarrow> int" where
  "localeCompare a b = (if a < b then - 1 else if a = b then 0 else 1)"

definition digitChar :: "nat \<Rightarrow> char" where
  "digitChar d = char_of (48 + d)"

fun String_nat :: "nat \<Rightarrow> string" where
  "String_nat n = (if n < 10 then [digitChar n] else String_nat (n div 10) @ [digitChar (n mod 10)])"

declare String_nat.simps [simp del]

definition String_int :: "int \<Rightarrow> string" where
  "String_int i = (if i < 0 then CHR ''-'' # String_nat (nat (- i)) else String_nat (nat i))"

text \<open>\<^verbatim>\<open>s.padStart(2, '0')\<close>\<close>

definition padStart2 :: "string \<Rightarrow> string" where
  "padStart2 s = replicate (2 - length s) CHR ''0'' @ s"

text \<open>\<^verbatim>\<open>s.startsWith(p)\<close>\<close>

definition startsWith :: "string \<Rightarrow> string \<Rightarrow> bool" where
  "startsWith s p = prefix p s"

text \<open>\<^verbatim>\<open>s.split(c)\<close> for a separator of one character.\<close>

fun split_on :: "char \<Rightarrow> string \<Rightarrow> string list" where
  "split_on c [] = [[]]"
| "split_on c (x # xs) =
     (if x = c then [] # split_on c xs
      else (case split_on c xs of p # ps \<Rightarrow> (x # p) # ps | [] \<Rightarrow> [[x]]))"

definition isDigit :: "char \<Rightarrow> bool" where
  "isDigit c = (CHR ''0'' \<le> c \<and> c \<le> CHR ''9'')"

definition digitsValue :: "string \<Rightarrow> nat" where
  "digitsValue ds = foldl (\<lambda>a c. 10 * a + (of_char c - 48)) 0 ds"

text \<open>
  \<^verbatim>\<open>parseInt(s)\<close> on a part of a month key, or on a missing part (\<open>None\<close>): the
  leading decimal digits, and \<^verbatim>\<open>NaN\<close> (\<open>None\<close>) when there is none. A part of a key
  holds no sign, white space or radix prefix, so these are not modelled.
\<close>

definition parseInt :: "string option \<Rightarrow> int option" where
  "parseInt s =
     (case s of
        None \<Rightarrow> None
      | Some cs \<Rightarrow> (let ds = takeWhile isDigit cs in if ds = [] then None else Some (int (digitsValue ds))))"

section \<open>Array.prototype.sort\<close>

text \<open>
  The sort is stable: an element is placed before the first element of the sorted rest
  that the comparator does not order before it. A comparator result of \<^verbatim>\<open>NaN\<close>
  counts as 0 and is returned as 0 by the comparators below. For a comparator that is
  a consistent ordering, and the constant 0 is one, every stable sort returns this list.
  A comparator that answers 0 against an unparsable date and orders the parsable ones is
  not consistent, and the language leaves the order of the result to the implementation
  then; \<open>sort_by\<close> is one such order, and the theorems that depend on the order are
  stated for collections on which the comparator is consistent.
\<close>

fun insert_by :: "('a \<Rightarrow> 'a \<Rightarrow> int) \<Rightarrow> 'a \<Rightarrow> 'a list \<Rightarrow> 'a list" where
  "insert_by cmp x [] = [x]"
| "insert_by cmp x (y # ys) = (if cmp x y \<le> 0 then x # y # ys else y # insert_by cmp x ys)"

definition sort_by :: "('a \<Rightarrow> 'a \<Rightarrow> int) \<Rightarrow> 'a list \<Rightarrow> 'a list" where
  "sort_by cmp xs = foldr (insert_by cmp) xs []"

section \<open>Statistics engine (Dashboard.tsx, stats)\<close>

text \<open>\<^verbatim>\<open>(t.pnl || 0)\<close>\<close>

definition pnlOr0 :: "Trade \<Rightarrow> real" where
  "pnlOr0 t = (case pnl t of None \<Rightarrow> 0 | Some p \<Rightarrow> p)"

text \<open>
  \<^verbatim>\<open>new Date(a.entryDate).getTime() - new Date(b.entryDate).getTime()\<close>, \<open>None\<close> when
  it is \<^verbatim>\<open>NaN\<close>.
\<close>

definition dateDiff :: "host \<Rightarrow> Trade \<Rightarrow> Trade \<Rightarrow> int option" where
  "dateDiff h a b =
     (case (getTime (newDate h (entryDate a)), getTime (newDate h (entryDate b))) of
        (Some x, Some y) \<Rightarrow> Some (x - y)
      | _ \<Rightarrow> None)"

definition compareTrades :: "host \<Rightarrow> Trade \<Rightarrow> Trade \<Rightarrow> int" where
  "compareTrades h a b =
     (case dateDiff h a b of
        None \<Rightarrow> 0
      | Some d \<Rightarrow> if d \<noteq> 0 then d else localeCompare (trade_id a) (trade_id b))"

text \<open>The filter and the sort of \<^verbatim>\<open>closedTrades\<close>.\<close>

definition closedSubset :: "Trade list \<Rightarrow> Trade list" where
  "closedSubset trades = filter (\<lambda>t. status t = CLOSED \<and> pnl t \<noteq> None) trades"

definition closedTrades :: "host \<Rightarrow> Trade list \<Rightarrow> Trade list" where
  "closedTrades h trades = sort_by (compareTrades h) (closedSubset trades)"

text \<open>
  One round of the streak loop on the state
  \<open>(currentWinStreakCounter, maxWinStreak, currentStreak)\<close>.
\<close>

fun streakStep :: "nat \<times> nat \<times> int \<Rightarrow> Trade \<Rightarrow> nat \<times> nat \<times> int" where
  "streakStep (w, m, c) trade =
     (if pnlOr0 trade > 0
      then (w + 1, max m (w + 1), if c \<ge> 0 then c + 1 else 1)
      else (0, m, if c \<le> 0 then c - 1 else - 1))"

definition streakScan :: "Trade list \<Rightarrow> nat \<times> nat \<times> int" where
  "streakScan ts = foldl streakStep (0, 0, 0) ts"

definition sumPnl :: "Trade list \<Rightarrow> real" where
  "sumPnl ts = foldl (\<lambda>acc t. acc + pnlOr0 t) 0 ts"

definition stats :: "host \<Rightarrow> Trade list \<Rightarrow> DashboardStats" where
  "stats h trades =
     (let closed = closedTrades h trades;
          total = length closed;
          wins = filter (\<lambda>t. pnlOr0 t > 0) closed;
          losses = filter (\<lambda>t. pnlOr0 t \<le> 0) closed;
          totalWinPnl = sumPnl wins;
          totalLossPnl = \<bar>sumPnl losses\<bar>;
          (w, m, c) = streakScan closed
      in \<lparr>totalTrades = total,
          winRate = (if total > 0 then (real (length wins) / real total) * 100 else 0),
          netPnL = totalWinPnl - totalLossPnl,
          avgWin = (if length wins > 0 then totalWinPnl / real (length wins) else 0),
          avgLoss = (if length losses > 0 then totalLossPnl / real (length losses) else 0),
          profitFactor =
            (if totalLossPnl > 0 then totalWinPnl / totalLossPnl
             else if totalWinPnl > 0 then 999 else 0),
          maxWinStreak = m,
          currentStreak = c\<rparr>)"

text \<open>The two totals the profit factor is computed from.\<close>

definition totalWinPnl :: "host \<Rightarrow> Trade list \<Rightarrow> real" where
  "totalWinPnl h trades = sumPnl (filter (\<lambda>t. pnlOr0 t > 0) (closedTrades h trades))"

definition totalLossPnl :: "host \<Rightarrow> Trade list \<Rightarrow> real" where
  "totalLossPnl h trades = \<bar>sumPnl (filter (\<lambda>t. pnlOr0 t \<le> 0) (closedTrades h trades))\<bar>"



text \<open>
  What the comparator of \<^verbatim>\<open>closedTrades\<close> compares, for a trade whose entry date the host
  parses: the time value of \<^verbatim>\<open>new Date(t.entryDate)\<close>, then \<^verbatim>\<open>t.id\<close>.
\<close>

definition entryKey :: "host \<Rightarrow> Trade \<Rightarrow> int \<times> string" where
  "entryKey h t =
     (case getTime (newDate h (entryDate t)) of Some x \<Rightarrow> x | None \<Rightarrow> 0, trade_id t)"

section \<open>Equity curve and monthly aggregation (Dashboard.tsx)\<close>

record equity_point =
  point_date :: string
  equity :: real
  point_pnl :: "real option"

definition compareEntry :: "host \<Rightarrow> Trade \<Rightarrow> Trade \<Rightarrow> int" where
  "compareEntry h a b = (case dateDiff h a b of None \<Rightarrow> 0 | Some d \<Rightarrow> d)"

text \<open>The \<^verbatim>\<open>map\<close> over the sorted trades, with \<^verbatim>\<open>runningBalance\<close> threaded through.\<close>

fun equityPoints :: "host \<Rightarrow> real \<Rightarrow> Trade list \<Rightarrow> equity_point list" where
  "equityPoints h runningBalance [] = []"
| "equityPoints h runningBalance (t # ts) =
     \<lparr>point_date = shortDayLabel h (entryDate t),
      equity = runningBalance + pnlOr0 t,
      point_pnl = pnl t\<rparr> # equityPoints h (runningBalance + pnlOr0 t) ts"

definition sortedTrades :: "host \<Rightarrow> Trade list \<Rightarrow> Trade list" where
  "sortedTrades h trades = sort_by (compareEntry h) (filter (\<lambda>t. status t = CLOSED) trades)"

definition equityCurveData :: "host \<Rightarrow> Trade list \<Rightarrow> equity_point list" where
  "equityCurveData h trades = equityPoints h 0 (sortedTrades h trades)"

text \<open>
  The month key of a date. For an invalid date both parts print as \<^verbatim>\<open>NaN\<close>. Only the
  month is padded.
\<close>

fun monthKey :: "jsDate \<Rightarrow> string" where
  "monthKey InvalidDate = ''NaN-NaN''"
| "monthKey (ValidDate t y m) = String_int y @ ''-'' @ padStart2 (String_nat (m + 1))"

text \<open>
  The object \<^verbatim>\<open>data\<close> is a list of its entries in insertion order, which is the order
  \<^verbatim>\<open>Object.entries\<close> lists keys that are not array indices in; a month key holds a
  hyphen and is none. \<open>dictAdd\<close> is \<^verbatim>\<open>data[key] = (data[key] || 0) + v\<close>.
\<close>

fun dictAdd :: "(string \<times> real) list \<Rightarrow> string \<Rightarrow> real \<Rightarrow> (string \<times> real) list" where
  "dictAdd [] k v = [(k, 0 + v)]"
| "dictAdd ((k', x) # d) k v = (if k' = k then (k', x + v) # d else (k', x) # dictAdd d k v)"

text \<open>The month key of a trade: the \<^verbatim>\<open>key\<close> of the \<^verbatim>\<open>forEach\<close> body.\<close>

definition keyOf :: "host \<Rightarrow> Trade \<Rightarrow> string" where
  "keyOf h t = monthKey (newDate h (entryDate t))"

definition monthlyData :: "host \<Rightarrow> Trade list \<Rightarrow> (string \<times> real) list" where
  "monthlyData h trades =
     foldl (\<lambda>d t. dictAdd d (keyOf h t) (pnlOr0 t)) [] (filter (\<lambda>t. status t = CLOSED) trades)"

text \<open>
  The calendar year and month index of a trade's entry date, as the host reads it; \<open>(0, 0)\<close>
  for an invalid date.
\<close>

definition entryYM :: "host \<Rightarrow> Trade \<Rightarrow> int \<times> nat" where
  "entryYM h t = (case newDate h (entryDate t) of ValidDate tm y m \<Rightarrow> (y, m) | InvalidDate \<Rightarrow> (0, 0))"

text \<open>The month key of a year and a month index.\<close>

definition ymKey :: "int \<times> nat \<Rightarrow> string" where
  "ymKey ym = monthKey (ValidDate 0 (fst ym) (snd ym))"

text \<open>
  Every closed trade has a valid entry date in a year of four digits, from 1000 to 9999
  (with a month index from 0 to 11, as \<^verbatim>\<open>getMonth\<close> returns).
\<close>

definition fourDigitYears :: "host \<Rightarrow> Trade list \<Rightarrow> bool" where
  "fourDigitYears h trades =
     list_all (\<lambda>t. status t = CLOSED \<longrightarrow>
        (case newDate h (entryDate t) of
           ValidDate tm y m \<Rightarrow> 1000 \<le> y \<and> y \<le> 9999 \<and> m < 12
         | InvalidDate \<Rightarrow> False)) trades"

definition compareKeys :: "string \<times> real \<Rightarrow> string \<times> real \<Rightarrow> int" where
  "compareKeys a b = localeCompare (fst a) (fst b)"

definition sortedEntries :: "host \<Rightarrow> Trade list \<Rightarrow> (string \<times> real) list" where
  "sortedEntries h trades = sort_by compareKeys (monthlyData h trades)"

fun nth_opt :: "'a list \<Rightarrow> nat \<Rightarrow> 'a option" where
  "nth_opt [] n = None"
| "nth_opt (x # xs) 0 = Some x"
| "nth_opt (x # xs) (Suc n) = nth_opt xs n"

record month_point =
  name :: string
  month_pnl :: real

definition bucketLabel :: "host \<Rightarrow> string \<Rightarrow> string" where
  "bucketLabel h key =
     (let parts = split_on CHR ''-'' key;
          year = nth_opt parts 0;
          month = nth_opt parts 1
      in monthYearLabel h (parseInt year) (map_option (\<lambda>m. m - 1) (parseInt month)))"

definition monthlyChartData :: "host \<Rightarrow> Trade list \<Rightarrow> month_point list" where
  "monthlyChartData h trades =
     map (\<lambda>(key, p). \<lparr>name = bucketLabel h key, month_pnl = p\<rparr>) (sortedEntries h trades)"

section \<open>Calendar aggregator (Dashboard.tsx, calendarData)\<close>

text \<open>
  Calendar arithmetic of \<^verbatim>\<open>new Date(year, month, day)\<close>: a year from 0 to 99 stands for
  1900 plus that year, and a month index beyond 11 carries into the year.
  \<open>daysInMonth\<close> is \<^verbatim>\<open>new Date(year, month + 1, 0).getDate()\<close> and \<open>firstDayOfWeek\<close> is
  \<^verbatim>\<open>new Date(year, month, 1).getDay()\<close>, 0 for Sunday.
\<close>

definition jsYear :: "int \<Rightarrow> int" where
  "jsYear y = (if 0 \<le> y \<and> y \<le> 99 then 1900 + y else y)"

definition isLeapYear :: "int \<Rightarrow> bool" where
  "isLeapYear y = (y mod 4 = 0 \<and> (y mod 100 \<noteq> 0 \<or> y mod 400 = 0))"

definition monthLength :: "int \<Rightarrow> nat \<Rightarrow> nat" where
  "monthLength y m =
     (if m = 1 then (if isLeapYear y then 29 else 28)
      else if m = 3 \<or> m = 5 \<or> m = 8 \<or> m = 10 then 30 else 31)"

definition daysInMonth :: "int \<Rightarrow> nat \<Rightarrow> nat" where
  "daysInMonth year month = monthLength (jsYear year + int (month div 12)) (month mod 12)"

text \<open>Days from 1970-01-01 to day \<open>d\<close> of month index \<open>m\<close> of year \<open>y\<close>.\<close>

definition daysFromCivil :: "int \<Rightarrow> nat \<Rightarrow> nat \<Rightarrow> int" where
  "daysFromCivil y m d =
     (let y' = (if m < 2 then y - 1 else y);
          era = y' div 400;
          yoe = y' - era * 400;
          mp = (if m < 2 then int m + 10 else int m - 2);
          doy = (153 * mp + 2) div 5 + int d - 1;
          doe = yoe * 365 + yoe div 4 - yoe div 100 + doy
      in era * 146097 + doe - 719468)"

definition firstDayOfWeek :: "int \<Rightarrow> nat \<Rightarrow> nat" where
  "firstDayOfWeek year month =
     nat ((daysFromCivil (jsYear year + int (month div 12)) (month mod 12) 1 + 4) mod 7)"

record day_cell =
  day :: nat
  dateStr :: string
  day_pnl :: real
  hasTrades :: bool
  hasNote :: bool

definition dateStrOf :: "int \<Rightarrow> nat \<Rightarrow> nat \<Rightarrow> string" where
  "dateStrOf year month i =
     String_int year @ ''-'' @ padStart2 (String_nat (month + 1)) @ ''-'' @ padStart2 (String_nat i)"

definition dayTrades :: "Trade list \<Rightarrow> string \<Rightarrow> Trade list" where
  "dayTrades trades ds = filter (\<lambda>t. startsWith (entryDate t) ds \<and> status t = CLOSED) trades"

definition dayCell :: "Trade list \<Rightarrow> DailyNote list \<Rightarrow> int \<Rightarrow> nat \<Rightarrow> nat \<Rightarrow> day_cell" where
  "dayCell trades dailyNotes year month i =
     (let ds = dateStrOf year month i;
          dts = dayTrades trades ds;
          dailyPnl = foldl (\<lambda>sum t. sum + pnlOr0 t) 0 dts;
          note = find (\<lambda>n. note_date n = ds) dailyNotes
      in \<lparr>day = i, dateStr = ds, day_pnl = dailyPnl,
          hasTrades = (length dts > 0), hasNote = (note \<noteq> None)\<rparr>)"

text \<open>A padding cell \<^verbatim>\<open>{ day: null }\<close> is \<open>None\<close>.\<close>

record calendar =
  cal_year :: int
  cal_month :: nat
  days :: "day_cell option list"
  monthName :: string

definition calendarData :: "host \<Rightarrow> Trade list \<Rightarrow> DailyNote list \<Rightarrow> int \<Rightarrow> nat \<Rightarrow> calendar" where
  "calendarData h trades dailyNotes year month =
     \<lparr>cal_year = year, cal_month = month,
      days = replicate (firstDayOfWeek year month) None @
             map (\<lambda>i. Some (dayCell trades dailyNotes year month i)) [1 ..< daysInMonth year month + 1],
      monthName = monthLongName h year month\<rparr>"

section \<open>Trade form: the computed P&L (TradeForm.tsx, handleChange)\<close>









section \<open>AI coach adapter (geminiService.ts, analyzeTradeWithAI)\<close>

text \<open>
  The outcome of an asynchronous function is the value its promise resolves to, or a
  rejection. What the \<^verbatim>\<open>try\<close> block does before its \<^verbatim>\<open>return\<close> (making the client,
  building the prompt from the trade, awaiting \<^verbatim>\<open>generateContent\<close>) either throws or
  yields a response whose \<^verbatim>\<open>text\<close> is a string or \<^verbatim>\<open>undefined\<close>; which of the two is a
  parameter, a function of the trade.
\<close>

datatype 'a promise = Resolved 'a | Rejected

datatype genResult = Throws | Response "string option"

definition analyzeTradeWithAI :: "(Trade \<Rightarrow> genResult) \<Rightarrow> Trade \<Rightarrow> string promise" where
  "analyzeTradeWithAI generateContent trade =
     (case generateContent trade of
        Response txt \<Rightarrow>
          (case txt of
             None \<Rightarrow> Resolved ''Could not generate analysis.''
           | Some s \<Rightarrow> if s = [] then Resolved ''Could not generate analysis.'' else Resolved s)
      | Throws \<Rightarrow>
          Resolved ''Error connecting to AI Coach. Please check your API key or try again later.'')"

section \<open>Trade store client (supabaseClient.ts, fetchTrades)\<close>

text \<open>
  A row of the table \<^verbatim>\<open>trades\<close> as the client receives it: a \<^verbatim>\<open>numeric\<close> column is a
  number or \<^verbatim>\<open>null\<close>, a nullable text column a string or \<^verbatim>\<open>null\<close>, and \<open>None\<close> is
  \<^verbatim>\<open>null\<close>. The columns \<^verbatim>\<open>type\<close> and \<^verbatim>\<open>status\<close> hold what \<^verbatim>\<open>saveTradeToDb\<close> wrote, a
  value of the enumeration; the cast does not check it.
\<close>

record row =
  r_id :: string
  r_symbol :: string
  r_type :: TradeType
  r_status :: TradeStatus
  entry_date :: string
  expiry_date :: "string option"
  entry_price :: "real option"
  exit_price :: "real option"
  r_quantity :: "real option"
  stop_loss :: "real option"
  take_profit :: "real option"
  r_pnl :: "real option"
  r_setup :: "string option"
  r_notes :: "string option"
  r_tags :: "string list option"

text \<open>\<^verbatim>\<open>Number(v)\<close>: \<^verbatim>\<open>null\<close> converts to 0.\<close>

definition Number_of :: "real option \<Rightarrow> real" where
  "Number_of v = (case v of None \<Rightarrow> 0 | Some x \<Rightarrow> x)"

text \<open>\<^verbatim>\<open>v ? Number(v) : undefined\<close>: \<^verbatim>\<open>null\<close> and 0 are falsy.\<close>

definition ifTruthy :: "real option \<Rightarrow> real option" where
  "ifTruthy v = (case v of None \<Rightarrow> None | Some x \<Rightarrow> if x = 0 then None else Some x)"

text \<open>\<^verbatim>\<open>v !== null ? Number(v) : undefined\<close>\<close>

definition ifNotNull :: "real option \<Rightarrow> real option" where
  "ifNotNull v = (case v of None \<Rightarrow> None | Some x \<Rightarrow> Some x)"

text \<open>\<^verbatim>\<open>v || ''\<close> and \<^verbatim>\<open>v || []\<close>\<close>

definition orEmpty :: "'a list option \<Rightarrow> 'a list" where
  "orEmpty v = (case v of None \<Rightarrow> [] | Some x \<Rightarrow> x)"

text \<open>The mapping of the first definition of \<^verbatim>\<open>fetchTrades\<close> (import from \<^verbatim>\<open>'../types.ts'\<close>).\<close>

definition mapRow_first :: "row \<Rightarrow> Trade" where
  "mapRow_first t =
     \<lparr>trade_id = r_id t, symbol = r_symbol t, trade_type = r_type t, status = r_status t,
      entryDate = entry_date t, expiryDate = expiry_date t,
      entryPrice = Number_of (entry_price t),
      exitPrice = ifTruthy (exit_price t),
      quantity = Number_of (r_quantity t),
      stopLoss = ifTruthy (stop_loss t),
      takeProfit = ifTruthy (take_profit t),
      pnl = ifNotNull (r_pnl t),
      setup_label = orEmpty (r_setup t), trade_notes = orEmpty (r_notes t),
      tags = orEmpty (r_tags t)\<rparr>"

text \<open>The mapping of the second definition (import from \<^verbatim>\<open>'../types'\<close>).\<close>

definition mapRow_second :: "row \<Rightarrow> Trade" where
  "mapRow_second t =
     \<lparr>trade_id = r_id t, symbol = r_symbol t, trade_type = r_type t, status = r_status t,
      entryDate = entry_date t, expiryDate = expiry_date t,
      entryPrice = Number_of (entry_price t),
      exitPrice = ifTruthy (exit_price t),
      quantity = Number_of (r_quantity t),
      stopLoss = ifTruthy (stop_loss t),
      takeProfit = ifTruthy (take_profit t),
      pnl = ifTruthy (r_pnl t),
      setup_label = orEmpty (r_setup t), trade_notes = orEmpty (r_notes t),
      tags = orEmpty (r_tags t)\<rparr>"

text \<open>
  The query's answer is an error (\<open>Inl\<close>) or the rows; \<^verbatim>\<open>if (error) throw error\<close> rejects
  the promise.
\<close>

definition fetchTrades_first :: "string + row list \<Rightarrow> Trade list promise" where
  "fetchTrades_first answer =
     (case answer of Inl e \<Rightarrow> Rejected | Inr data \<Rightarrow> Resolved (map mapRow_first data))"

definition fetchTrades_second :: "string + row list \<Rightarrow> Trade list promise" where
  "fetchTrades_second answer =
     (case answer of Inl e \<Rightarrow> Rejected | Inr data \<Rightarrow> Resolved (map mapRow_second data))"

text \<open>A row of a closed trade that broke even: its stored P&L is 0.\<close>

definition breakevenRow :: row where
  "breakevenRow =
     \<lparr>r_id = ''a'', r_symbol = ''NIFTY'', r_type = LONG, r_status = CLOSED,
      entry_date = ''2024-01-05'', expiry_date = None, entry_price = Some 100,
      exit_price = Some 100, r_quantity = Some 75, stop_loss = None, take_profit = None,
      r_pnl = Some 0, r_setup = None, r_notes = None, r_tags = None\<rparr>"

section \<open>A host instance for the examples\<close>

text \<open>
  One host, on which the examples are evaluated: time zone UTC, locale en-US, and entry
  dates in the form \<^verbatim>\<open>YYYY-MM-DD\<close>, which the form's date input produces and which is
  read as midnight UTC of that day. A string of another form is read as an invalid date
  here: the empty string, as on every host, but also a timestamp with a time part or a
  day past the end of its month, which a browser may accept. The examples use the
  date-only form and the empty string.
\<close>

definition monthShort :: "nat \<Rightarrow> string" where
  "monthShort m =
     [''Jan'', ''Feb'', ''Mar'', ''Apr'', ''May'', ''Jun'',
      ''Jul'', ''Aug'', ''Sep'', ''Oct'', ''Nov'', ''Dec''] ! (m mod 12)"

definition monthLong :: "nat \<Rightarrow> string" where
  "monthLong m =
     [''January'', ''February'', ''March'', ''April'', ''May'', ''June'',
      ''July'', ''August'', ''September'', ''October'', ''November'', ''December''] ! (m mod 12)"

definition isoNewDate :: "string \<Rightarrow> jsDate" where
  "isoNewDate s =
     (if length s = 10 \<and> s ! 4 = CHR ''-'' \<and> s ! 7 = CHR ''-''
         \<and> list_all isDigit (take 4 s @ take 2 (drop 5 s) @ drop 8 s)
      then (let y = int (digitsValue (take 4 s));
                m = digitsValue (take 2 (drop 5 s));
                d = digitsValue (drop 8 s)
            in if 1 \<le> m \<and> m \<le> 12 \<and> 1 \<le> d \<and> d \<le> monthLength y (m - 1)
               then ValidDate (daysFromCivil y (m - 1) d * 86400000) y (m - 1)
               else InvalidDate)
      else InvalidDate)"

definition isoShortDay :: "string \<Rightarrow> string" where
  "isoShortDay s =
     (case isoNewDate s of
        InvalidDate \<Rightarrow> ''Invalid Date''
      | ValidDate t y m \<Rightarrow> monthShort m @ '' '' @ String_nat (digitsValue (drop 8 s)))"

definition isoMonthYear :: "int option \<Rightarrow> int option \<Rightarrow> string" where
  "isoMonthYear y m =
     (case (y, m) of
        (Some yy, Some mm) \<Rightarrow>
          (let t = jsYear yy * 12 + mm
           in monthShort (nat (t mod 12)) @ '' '' @ padStart2 (String_nat (nat ((t div 12) mod 100))))
      | _ \<Rightarrow> ''Invalid Date'')"

definition isoHost :: host where
  "isoHost = \<lparr>newDate = isoNewDate, shortDayLabel = isoShortDay,
              monthYearLabel = isoMonthYear, monthLongName = (\<lambda>y m. monthLong m)\<rparr>"

text \<open>A trade of the examples: closed, with the given identifier, entry date and P&L.\<close>

definition closedTrade :: "string \<Rightarrow> string \<Rightarrow> real option \<Rightarrow> Trade" where
  "closedTrade i d p =
     \<lparr>trade_id = i, symbol = ''NIFTY'', trade_type = LONG, status = CLOSED,
      entryDate = d, expiryDate = None, entryPrice = 100, exitPrice = None, quantity = 1,
      stopLoss = None, takeProfit = None, pnl = p, setup_label = ''General'',
      trade_notes = [], tags = []\<rparr>"

text \<open>Three closed trades of February 2024, the last without a P&L, and a note.\<close>

definition febTrades :: "Trade list" where
  "febTrades = [closedTrade ''a'' ''2024-02-05'' (Some 100), closedTrade ''b'' ''2024-02-05'' (Some (- 40)),
      closedTrade ''c'' ''2024-02-06'' None]"

definition febNotes :: "DailyNote list" where
  "febNotes = [\<lparr>note_date = ''2024-02-05'', content = ''Followed the plan.'', mood = Some Disciplined\<rparr>]"


section \<open>Double arithmetic: proofs\<close>

lemma pow2_pos: "0 < pow2 k"
  by (simp add: pow2_def)

lemma pow2_powr: "pow2 k = 2 powr (real_of_int k)"
proof (cases "0 \<le> k")
  case True
  then show ?thesis by (simp add: pow2_def powr_realpow [symmetric])
next
  case False
  then have "2 powr (real_of_int k) = 1 / 2 powr (real_of_int (- k))"
    by (simp add: powr_minus_divide)
  also have "\<dots> = 1 / 2 ^ nat (- k)"
    using False by (simp add: powr_realpow [symmetric])
  finally show ?thesis using False by (simp add: pow2_def)
qed

lemma pow2_add: "pow2 (j + k) = pow2 j * pow2 k"
  by (simp add: pow2_powr powr_add)

lemma pow2_mono: "j \<le> k \<Longrightarrow> pow2 j \<le> pow2 k"
  by (simp add: pow2_powr)

lemma pow2_less_iff: "(pow2 j < pow2 k) = (j < k)"
  by (simp add: pow2_powr)

lemma pow2_le_iff: "(pow2 j \<le> pow2 k) = (j \<le> k)"
  by (simp add: pow2_powr)

lemma pow2_nat: "0 \<le> k \<Longrightarrow> pow2 k = of_int (2 ^ nat k)"
  by (simp add: pow2_def)

lemma pow2_zero: "pow2 0 = 1"
  by (simp add: pow2_def)

text \<open>The exponent of a positive number is the one whose binade holds it.\<close>

lemma bitlen_eqI:
  assumes "0 \<le> e" "2 ^ nat e \<le> n" "n < 2 ^ nat (e + 1)"
  shows "bitlen n = e + 1"
proof -
  have n: "0 < n" using assms(2) by (smt (verit) zero_less_power)
  have b: "2 ^ nat (bitlen n - 1) \<le> n" "n < 2 ^ nat (bitlen n)"
    using bitlen_bounds [OF n] by simp_all
  have "(2::int) ^ nat (bitlen n - 1) < 2 ^ nat (e + 1)" using b(1) assms(3) by linarith
  then have 1: "nat (bitlen n - 1) < nat (e + 1)" by (simp add: power_strict_increasing_iff)
  have "(2::int) ^ nat e < 2 ^ nat (bitlen n)" using b(2) assms(2) by linarith
  then have 2: "nat e < nat (bitlen n)" by (simp add: power_strict_increasing_iff)
  show ?thesis using 1 2 assms(1) bitlen_nonneg [of n] by linarith
qed

lemma expo_ge1:
  assumes "0 \<le> e" "pow2 e \<le> x" "x < pow2 (e + 1)"
  shows "expo x = e"
proof -
  have x1: "1 \<le> x" using assms(1,2) pow2_mono [of 0 e] by (simp add: pow2_zero)
  have "of_int (2 ^ nat e) \<le> x" using assms(1,2) by (simp add: pow2_nat)
  then have lo: "2 ^ nat e \<le> \<lfloor>x\<rfloor>" by (simp only: le_floor_iff)
  have "x < of_int (2 ^ nat (e + 1))" using assms(1,3) by (simp add: pow2_nat)
  then have hi: "\<lfloor>x\<rfloor> < 2 ^ nat (e + 1)" by (simp only: floor_less_iff)
  have "bitlen \<lfloor>x\<rfloor> = e + 1" using assms(1) lo hi by (rule bitlen_eqI)
  then show ?thesis using x1 by (simp add: expo_def)
qed

lemma expo_lt1:
  assumes "e < 0" "pow2 e \<le> x" "x < pow2 (e + 1)"
  shows "expo x = e"
proof -
  have x0: "0 < x" using assms(2) pow2_pos [of e] by linarith
  have x1: "x < 1" using assms(1,3) pow2_mono [of "e + 1" 0] by (simp add: pow2_zero)
  have inv: "pow2 (- e) * pow2 e = 1" using pow2_add [of "- e" e] by (simp add: pow2_zero)
  have inv': "pow2 (- e - 1) * pow2 (e + 1) = 1"
    using pow2_add [of "- e - 1" "e + 1"] by (simp add: pow2_zero)
  have up: "1 / x \<le> pow2 (- e)"
  proof -
    have "1 = pow2 (- e) * pow2 e" using inv by simp
    also have "\<dots> \<le> pow2 (- e) * x" using assms(2) pow2_pos [of "- e"] by simp
    finally show ?thesis using x0 by (simp add: field_simps)
  qed
  have lo: "pow2 (- e - 1) < 1 / x"
  proof -
    have "pow2 (- e - 1) * x < pow2 (- e - 1) * pow2 (e + 1)"
      using assms(3) pow2_pos [of "- e - 1"] by simp
    then have "pow2 (- e - 1) * x < 1" using inv' by simp
    then show ?thesis using x0 by (simp add: field_simps)
  qed
  show ?thesis
  proof (cases "x = pow2 e")
    case True
    have "1 / x = pow2 (- e)" using True inv pow2_pos [of e] by (simp add: field_simps)
    then have "expo (1 / x) = - e"
      using assms(1) pow2_less_iff [of "- e" "- e + 1"] by (intro expo_ge1) simp_all
    moreover have "1 \<le> 1 / x" using x0 x1 by simp
    ultimately have "bitlen \<lfloor>1 / x\<rfloor> - 1 = - e" by (simp add: expo_def)
    then show ?thesis using x1 True by (simp add: expo_def Let_def)
  next
    case False
    have "1 / x \<noteq> pow2 (- e)"
    proof
      assume "1 / x = pow2 (- e)"
      then have "x * pow2 (- e) = 1" using x0 by (simp add: field_simps)
      then have "x * pow2 (- e) = pow2 e * pow2 (- e)" using inv by (simp add: mult.commute)
      then have "x = pow2 e" using pow2_pos [of "- e"] by simp
      then show False using False by simp
    qed
    then have "1 / x < pow2 (- e - 1 + 1)" using up by simp
    then have "expo (1 / x) = - e - 1"
      using assms(1) lo by (intro expo_ge1) simp_all
    moreover have "1 \<le> 1 / x" using x0 x1 by simp
    ultimately have k: "bitlen \<lfloor>1 / x\<rfloor> - 1 = - e - 1" by (simp add: expo_def)
    have "x \<noteq> pow2 (1 + e)" using assms(3) by (simp add: add.commute)
    then show ?thesis using x1 k by (simp add: expo_def Let_def)
  qed
qed

lemma expo_eq:
  assumes "pow2 e \<le> x" "x < pow2 (e + 1)"
  shows "expo x = e"
  using assms expo_ge1 [of e x] expo_lt1 [of e x] by (cases "0 \<le> e") simp_all


lemma roundHalfEven_near:
  assumes "\<bar>y - of_int m\<bar> < 1 / 2"
  shows "roundHalfEven y = m"
proof (cases "of_int m \<le> y")
  case True
  then have "\<lfloor>y\<rfloor> = m" using assms by (intro floor_unique) simp_all
  then show ?thesis using assms True by (simp add: roundHalfEven_def)
next
  case False
  then have f: "\<lfloor>y\<rfloor> = m - 1" using assms by (intro floor_unique) simp_all
  have "1 / 2 < y - of_int (m - 1)" using assms False by simp
  then show ?thesis using f by (simp add: roundHalfEven_def)
qed

lemma roundHalfEven_int: "roundHalfEven (of_int m) = m"
  by (rule roundHalfEven_near) simp

lemma roundHalfEven_nonneg: "0 \<le> y \<Longrightarrow> 0 \<le> roundHalfEven y"
  by (simp add: roundHalfEven_def Let_def)

lemma roundNumber_pos:
  assumes "pow2 e \<le> x" "x < pow2 (e + 1)"
    and "q = pow2 (max e (- 1022) - 52)"
    and "\<bar>x / q - of_int m\<bar> < 1 / 2"
    and "of_int m * q < pow2 1024"
  shows "roundNumber x = Num (of_int m * q)"
proof -
  have x: "0 < x" using assms(1) pow2_pos [of e] by linarith
  have e: "expo x = e" using assms(1,2) by (rule expo_eq)
  have r: "roundHalfEven (x / q) = m" using assms(4) by (rule roundHalfEven_near)
  show ?thesis using x e r assms(3,5) by (simp add: roundNumber_def Let_def)
qed

lemma roundNumber_minus: "roundNumber (- x) = fneg (roundNumber x)"
  by (cases "x = 0") (auto simp: roundNumber_def Let_def)

text \<open>A number \<open>m * 2 ^ k\<close> with \<open>m\<close> below \<open>2 ^ 53\<close> in the range of the format is not rounded.\<close>

lemma roundNumber_exact:
  assumes "0 < m" "m < 2 ^ 53" "- 1074 \<le> k" "of_int m * pow2 k < pow2 1024"
  shows "roundNumber (of_int m * pow2 k) = Num (of_int m * pow2 k)"
proof -
  let ?x = "of_int m * pow2 k"
  let ?b = "bitlen m - 1"
  have b0: "0 \<le> ?b" using assms(1) bitlen_eq_zero_iff [of m] bitlen_nonneg [of m] by linarith
  have bb: "2 ^ nat ?b \<le> m" "m < 2 ^ nat (bitlen m)" using bitlen_bounds [OF assms(1)] by simp_all
  have lt: "(2::int) ^ nat ?b < 2 ^ 53" using bb(1) assms(2) by linarith
  have "nat ?b < 53" by (rule power_less_imp_less_exp [of "2::int"]) (simp, rule lt)
  then have b52: "?b \<le> 52" by linarith
  have lo: "pow2 (?b + k) \<le> ?x"
  proof -
    have "pow2 ?b \<le> of_int m" using bb(1) b0 by (simp add: pow2_nat)
    then show ?thesis using pow2_pos [of k] by (simp add: pow2_add)
  qed
  have hi: "?x < pow2 (?b + k + 1)"
  proof -
    have "nat (bitlen m) = nat (?b + 1)" by simp
    then have "of_int m < pow2 (?b + 1)" using bb(2) b0 by (simp add: pow2_nat)
    then have "?x < pow2 (?b + 1) * pow2 k" using pow2_pos [of k] by simp
    then show ?thesis by (simp add: pow2_add [symmetric] add.commute add.left_commute)
  qed
  let ?q = "pow2 (max (?b + k) (- 1022) - 52)"
  let ?d = "k - (max (?b + k) (- 1022) - 52)"
  have d0: "0 \<le> ?d" using b52 assms(3) by simp
  have pd: "pow2 ?d = of_int (2 ^ nat ?d)" using d0 by (rule pow2_nat)
  have pk: "pow2 k = pow2 ?d * ?q" using pow2_add [of ?d "max (?b + k) (- 1022) - 52"] by simp
  have q0: "?q \<noteq> 0" using pow2_pos [of "max (?b + k) (- 1022) - 52"] by simp
  have v: "of_int (m * 2 ^ nat ?d) * ?q = ?x"
    by (simp only: pk pd of_int_mult mult.assoc)
  have "of_int (m * 2 ^ nat ?d) * ?q / ?q = real_of_int (m * 2 ^ nat ?d)"
    using q0 by (rule nonzero_mult_div_cancel_right)
  then have xq: "?x / ?q = of_int (m * 2 ^ nat ?d)" by (simp only: v)
  have n: "\<bar>?x / ?q - of_int (m * 2 ^ nat ?d)\<bar> < 1 / 2" unfolding xq by simp
  have "roundNumber ?x = Num (of_int (m * 2 ^ nat ?d) * ?q)"
    using lo hi refl n by (rule roundNumber_pos) (simp only: v assms(4))
  then show ?thesis by (simp only: v)
qed

lemma roundNumber_int:
  assumes "\<bar>n\<bar> \<le> 2 ^ 53"
  shows "roundNumber (of_int n) = Num (of_int n)"
proof -
  have pos: "roundNumber (of_int j) = Num (of_int j)" if "0 < j" "j \<le> 2 ^ 53" for j :: int
  proof (cases "j = 2 ^ 53")
    case True
    have "roundNumber (of_int 1 * pow2 53) = Num (of_int 1 * pow2 53)"
      by (rule roundNumber_exact) (simp_all add: pow2_less_iff)
    then show ?thesis using True by (simp add: pow2_def)
  next
    case False
    then have "j < 2 ^ 53" using that(2) by simp
    moreover have "real_of_int j < pow2 1024"
    proof -
      have "real_of_int j < real_of_int (2 ^ 53)" using \<open>j < 2 ^ 53\<close> by (simp only: of_int_less_iff)
      also have "\<dots> = pow2 53" by (simp add: pow2_def)
      also have "\<dots> \<le> pow2 1024" by (simp add: pow2_le_iff)
      finally show ?thesis .
    qed
    ultimately have "roundNumber (of_int j * pow2 0) = Num (of_int j * pow2 0)"
      using that(1) by (intro roundNumber_exact) (simp_all add: pow2_zero)
    then show ?thesis by (simp add: pow2_zero)
  qed
  consider "n = 0" | "0 < n" | "n < 0" by linarith
  then show ?thesis
  proof cases
    case 1
    then show ?thesis by (simp add: roundNumber_def)
  next
    case 2
    then show ?thesis using assms by (intro pos) simp_all
  next
    case 3
    then have "roundNumber (of_int (- n)) = Num (of_int (- n))" using assms by (intro pos) simp_all
    then have r: "roundNumber (- real_of_int n) = Num (- real_of_int n)" by simp
    have "roundNumber (real_of_int n) = roundNumber (- (- real_of_int n))" by simp
    also have "\<dots> = fneg (roundNumber (- real_of_int n))" by (rule roundNumber_minus)
    also have "\<dots> = Num (real_of_int n)" by (simp add: r)
    finally show ?thesis .
  qed
qed

lemma roundNumber_nonneg: "0 \<le> x \<Longrightarrow> nonneg (roundNumber x)"
proof (cases "x = 0")
  case True
  then show ?thesis by (simp add: roundNumber_def nonneg_def)
next
  case False
  assume "0 \<le> x"
  then have x: "0 < x" using False by simp
  let ?q = "pow2 (max (expo \<bar>x\<bar>) (- 1022) - 52)"
  have "0 \<le> \<bar>x\<bar> / ?q" using pow2_pos [of "max (expo \<bar>x\<bar>) (- 1022) - 52"] by simp
  then have "0 \<le> roundHalfEven (\<bar>x\<bar> / ?q)" by (rule roundHalfEven_nonneg)
  then have "0 \<le> real_of_int (roundHalfEven (\<bar>x\<bar> / ?q)) * ?q"
    using pow2_pos [of "max (expo \<bar>x\<bar>) (- 1022) - 52"] by simp
  then show ?thesis using x by (simp add: roundNumber_def Let_def nonneg_def)
qed

lemma pow2_inverse: "pow2 (- k) = 1 / pow2 k"
  using pow2_add [of "- k" k] pow2_pos [of k] by (simp add: pow2_zero field_simps)

lemma expo_bounds_ge1:
  assumes "1 \<le> x"
  shows "pow2 (expo x) \<le> x \<and> x < pow2 (expo x + 1)"
proof -
  let ?n = "\<lfloor>x\<rfloor>"
  have n: "0 < ?n" using assms by simp
  have b: "2 ^ nat (bitlen ?n - 1) \<le> ?n" "?n < 2 ^ nat (bitlen ?n)"
    using bitlen_bounds [OF n] by simp_all
  have e: "expo x = bitlen ?n - 1" using assms by (simp add: expo_def)
  have e0: "0 \<le> bitlen ?n - 1" using n bitlen_eq_zero_iff [of ?n] bitlen_nonneg [of ?n] by linarith
  have "real_of_int (2 ^ nat (bitlen ?n - 1)) \<le> real_of_int ?n" using b(1) by (simp only: of_int_le_iff)
  also have "\<dots> \<le> x" by simp
  finally have lo: "pow2 (expo x) \<le> x" using e e0 by (simp add: pow2_nat)
  have "?n + 1 \<le> 2 ^ nat (bitlen ?n)" using b(2) by simp
  then have "real_of_int (?n + 1) \<le> real_of_int (2 ^ nat (bitlen ?n))" by (simp only: of_int_le_iff)
  moreover have "x < real_of_int (?n + 1)" by simp
  ultimately have "x < real_of_int (2 ^ nat (bitlen ?n))" by linarith
  moreover have "pow2 (expo x + 1) = real_of_int (2 ^ nat (bitlen ?n))"
    using e e0 pow2_nat [of "bitlen ?n"] by simp
  ultimately have hi: "x < pow2 (expo x + 1)" by simp
  show ?thesis using lo hi by simp
qed

lemma expo_bounds:
  assumes "0 < x"
  shows "pow2 (expo x) \<le> x \<and> x < pow2 (expo x + 1)"
proof (cases "1 \<le> x")
  case True
  then show ?thesis by (rule expo_bounds_ge1)
next
  case False
  let ?z = "1 / x"
  let ?k = "bitlen \<lfloor>?z\<rfloor> - 1"
  have z1: "1 \<le> ?z" using assms False by simp
  have ez: "expo ?z = ?k" using z1 by (simp add: expo_def)
  have bz: "pow2 ?k \<le> ?z" "?z < pow2 (?k + 1)" using expo_bounds_ge1 [OF z1] ez by simp_all
  have up: "x \<le> pow2 (- ?k)"
  proof -
    have "pow2 ?k * x \<le> 1" using bz(1) assms by (simp add: field_simps)
    then have "x \<le> 1 / pow2 ?k" using pow2_pos [of ?k] by (simp add: field_simps)
    then show ?thesis by (simp only: pow2_inverse)
  qed
  have lo: "pow2 (- ?k - 1) < x"
  proof -
    have "1 < pow2 (?k + 1) * x" using bz(2) assms by (simp add: field_simps)
    then have "1 / pow2 (?k + 1) < x" using pow2_pos [of "?k + 1"] by (simp add: field_simps)
    then have "pow2 (- (?k + 1)) < x" by (simp only: pow2_inverse)
    moreover have "- (?k + 1) = - ?k - 1" by simp
    ultimately show ?thesis by (simp only:)
  qed
  show ?thesis
  proof (cases "x = pow2 (- ?k)")
    case True
    have e: "expo x = - ?k" using False True by (simp add: expo_def Let_def)
    have "pow2 (- ?k) < pow2 (- ?k + 1)" by (simp add: pow2_less_iff)
    then show ?thesis using True e by simp
  next
    case ne: False
    have e: "expo x = - ?k - 1" using False ne by (simp add: expo_def Let_def)
    have "x < pow2 (- ?k)" using up ne by simp
    then show ?thesis using lo e by simp
  qed
qed

lemma roundHalfEven_le: "of_int (roundHalfEven y) \<le> y + 1 / 2"
proof -
  obtain n where n: "n = \<lfloor>y\<rfloor>" by simp
  have a: "of_int n \<le> y" unfolding n by simp
  show ?thesis unfolding roundHalfEven_def Let_def n [symmetric] using a by auto
qed

lemma roundHalfEven_ge_int:
  assumes "of_int n \<le> y"
  shows "n \<le> roundHalfEven y"
proof -
  obtain k where k: "k = \<lfloor>y\<rfloor>" by simp
  have "n \<le> k" unfolding k using assms by (simp add: le_floor_iff)
  then show ?thesis unfolding roundHalfEven_def Let_def k [symmetric] by auto
qed

text \<open>The rounded value is at most half a unit in the last place above the exact one.\<close>

lemma roundNumber_upper:
  assumes "0 < x" "roundNumber x = Num y"
  shows "y \<le> x + pow2 (max (expo x) (- 1022) - 52) / 2"
proof -
  let ?q = "pow2 (max (expo x) (- 1022) - 52)"
  have q: "0 < ?q" by (rule pow2_pos)
  have y: "y = of_int (roundHalfEven (x / ?q)) * ?q"
    using assms by (simp add: roundNumber_def Let_def split: if_splits)
  have "of_int (roundHalfEven (x / ?q)) * ?q \<le> (x / ?q + 1 / 2) * ?q"
    using roundHalfEven_le [of "x / ?q"] q by (simp only: mult_le_cancel_right_pos)
  also have "\<dots> = x + ?q / 2" using q by (simp add: field_simps)
  finally show ?thesis using y by simp
qed

lemma roundNumber_nonneg_Num:
  assumes "0 \<le> x" "roundNumber x = Num y"
  shows "0 \<le> y"
  using roundNumber_nonneg [OF assms(1)] assms(2) by (simp add: nonneg_def)

text \<open>
  Rounding to nearest and then taking the floor exceeds the exact value by at most one
  part in \<open>2 ^ 53\<close>.
\<close>

lemma floor_roundNumber_le:
  assumes "0 \<le> x" "roundNumber x = Num y"
  shows "of_int \<lfloor>y\<rfloor> \<le> x * (1 + 1 / 2 ^ 53)"
proof (cases "x = 0")
  case True
  then show ?thesis using assms by (simp add: roundNumber_def)
next
  case False
  then have x: "0 < x" using assms(1) by simp
  let ?e = "expo x"
  let ?q = "pow2 (max ?e (- 1022) - 52)"
  have b: "pow2 ?e \<le> x" "x < pow2 (?e + 1)" using expo_bounds [OF x] by simp_all
  have u: "y \<le> x + ?q / 2" using x assms(2) by (rule roundNumber_upper)
  have y0: "0 \<le> y" using assms by (rule roundNumber_nonneg_Num)
  show ?thesis
  proof (cases "- 1 \<le> ?e")
    case True
    then have "?q = pow2 (?e + (- 52))" by (simp add: max_def)
    then have "?q = pow2 ?e * pow2 (- 52)" by (simp only: pow2_add)
    then have "?q / 2 = pow2 ?e * (1 / 2 ^ 53)" by (simp add: pow2_def)
    also have "\<dots> \<le> x * (1 / 2 ^ 53)" using b(1) by simp
    finally have "y \<le> x + x * (1 / 2 ^ 53)" using u by linarith
    moreover have "of_int \<lfloor>y\<rfloor> \<le> y" by simp
    ultimately have f: "real_of_int \<lfloor>y\<rfloor> \<le> x + x * (1 / 2 ^ 53)" by linarith
    have "x * (1 + 1 / 2 ^ 53) = x + x * (1 / 2 ^ 53)" by (simp add: algebra_simps)
    then show ?thesis using f by (simp only:)
  next
    case False
    then have "?e + 1 \<le> - 1" by simp
    then have "pow2 (?e + 1) \<le> pow2 (- 1)" by (simp only: pow2_le_iff)
    then have x2: "x < 1 / 2" using b(2) by (simp add: pow2_def)
    have "max ?e (- 1022) - 52 \<le> - 54" using False by simp
    then have "?q \<le> pow2 (- 54)" by (simp only: pow2_le_iff)
    then have "?q \<le> 1 / 2" using pow2_le_iff [of "- 54" "- 1"] by (simp add: pow2_def)
    then have "y < 1" using u x2 by linarith
    then have "\<lfloor>y\<rfloor> = 0" using y0 by (intro floor_unique) simp_all
    then show ?thesis using x by simp
  qed
qed


lemma expo_less:
  assumes "0 < x" "x < pow2 k"
  shows "expo x < k"
proof -
  have "pow2 (expo x) \<le> x" using expo_bounds [OF assms(1)] by simp
  then have "pow2 (expo x) < pow2 k" using assms(2) by linarith
  then show ?thesis by (simp only: pow2_less_iff)
qed

lemma expo_ge:
  assumes "pow2 k \<le> x"
  shows "k \<le> expo x"
proof -
  have x: "0 < x" using assms pow2_pos [of k] by linarith
  have "x < pow2 (expo x + 1)" using expo_bounds [OF x] by simp
  then have "pow2 k < pow2 (expo x + 1)" using assms by linarith
  then have "k < expo x + 1" by (simp only: pow2_less_iff)
  then show ?thesis by simp
qed

lemma roundNumber_finite:
  assumes "0 \<le> x" "x < pow2 1023"
  shows "\<exists>y. roundNumber x = Num y"
proof (cases "x = 0")
  case True
  then show ?thesis by (simp add: roundNumber_def)
next
  case False
  then have x: "0 < x" using assms(1) by simp
  let ?q = "pow2 (max (expo x) (- 1022) - 52)"
  have q: "0 < ?q" by (rule pow2_pos)
  have "expo x < 1023" using x assms(2) by (rule expo_less)
  then have "max (expo x) (- 1022) - 52 \<le> 1023" by simp
  then have q2: "?q \<le> pow2 1023" by (simp only: pow2_le_iff)
  have "of_int (roundHalfEven (x / ?q)) * ?q \<le> (x / ?q + 1 / 2) * ?q"
    using roundHalfEven_le [of "x / ?q"] q by (simp only: mult_le_cancel_right_pos)
  also have "\<dots> = x + ?q / 2" using q by (simp add: field_simps)
  also have "\<dots> < pow2 1023 + pow2 1023" using assms(2) q2 q by linarith
  also have "\<dots> = pow2 (1023 + 1)" by (simp only: pow2_add) (simp add: pow2_def)
  finally have "of_int (roundHalfEven (x / ?q)) * ?q < pow2 1024" by simp
  then show ?thesis using x by (simp add: roundNumber_def Let_def)
qed

text \<open>Rounding a number below \<open>2 ^ 53\<close> never goes below a whole number under it.\<close>

lemma roundNumber_ge_int:
  assumes "0 \<le> k" "of_int k \<le> x" "x < pow2 53" "roundNumber x = Num y"
  shows "of_int k \<le> y"
proof (cases "k = 0")
  case True
  have "0 \<le> x" using assms(1,2) by linarith
  then have "0 \<le> y" using assms(4) by (rule roundNumber_nonneg_Num)
  then show ?thesis using True by simp
next
  case False
  then have k1: "1 \<le> k" using assms(1) by simp
  then have "(1::real) \<le> of_int k" by simp
  then have x1: "1 \<le> x" using assms(2) by linarith
  then have x: "0 < x" by simp
  let ?e = "expo x"
  have e0: "0 \<le> ?e" using x1 by (intro expo_ge) (simp add: pow2_zero)
  have e53: "?e < 53" using x assms(3) by (rule expo_less)
  let ?d = "52 - ?e"
  let ?q = "pow2 (- ?d)"
  have qe: "max ?e (- 1022) - 52 = - ?d" using e0 by simp
  have q: "0 < ?q" by (rule pow2_pos)
  have d0: "0 \<le> ?d" using e53 by simp
  have inv: "1 / ?q = of_int (2 ^ nat ?d)"
    using pow2_inverse [of ?d] pow2_nat [OF d0] pow2_pos [of ?d] by simp
  have y: "y = of_int (roundHalfEven (x / ?q)) * ?q"
    using assms(4) x qe by (simp add: roundNumber_def Let_def split: if_splits)
  have "of_int (k * 2 ^ nat ?d) = of_int k * (1 / ?q)" by (simp only: inv of_int_mult)
  also have "\<dots> \<le> x * (1 / ?q)" using assms(2) q by (simp add: field_simps)
  finally have "of_int (k * 2 ^ nat ?d) \<le> x / ?q" by simp
  then have "k * 2 ^ nat ?d \<le> roundHalfEven (x / ?q)" by (rule roundHalfEven_ge_int)
  then have "real_of_int (k * 2 ^ nat ?d) \<le> of_int (roundHalfEven (x / ?q))"
    by (simp only: of_int_le_iff)
  then have "real_of_int (k * 2 ^ nat ?d) * ?q \<le> of_int (roundHalfEven (x / ?q)) * ?q"
    using q by (simp only: mult_le_cancel_right_pos)
  moreover have "real_of_int (k * 2 ^ nat ?d) * ?q = of_int k"
  proof -
    have "real_of_int (k * 2 ^ nat ?d) * ?q = of_int k * ((1 / ?q) * ?q)"
      by (simp only: inv of_int_mult mult.assoc)
    then show ?thesis using q by simp
  qed
  ultimately show ?thesis unfolding y by linarith
qed

text \<open>
  Integer division through the double quotient: for naturals below \<open>2 ^ 53\<close> the floor of
  the rounded quotient is the integer quotient.
\<close>

lemma floor_roundNumber_div:
  fixes Q l :: nat
  assumes "0 < l" "l < 2 ^ 53" "Q < 2 ^ 53" "roundNumber (real Q / real l) = Num y"
  shows "\<lfloor>y\<rfloor> = int (Q div l)"
proof (cases "Q = 0")
  case True
  then show ?thesis using assms(4) by (simp add: roundNumber_def)
next
  case False
  let ?x = "real Q / real l"
  let ?k = "Q div l"
  have x: "0 < ?x" using False assms(1) by simp
  have l: "0 < real l" using assms(1) by simp
  have Qd: "real Q = real ?k * real l + real (Q mod l)"
    by (simp only: of_nat_mult [symmetric] of_nat_add [symmetric] of_nat_eq_iff) simp
  have lo: "real ?k \<le> ?x"
  proof -
    have "real ?k * real l \<le> real Q" using Qd by simp
    then show ?thesis using l by (simp add: field_simps)
  qed
  have hi: "?x \<le> real ?k + 1 - 1 / real l"
  proof -
    have "Q mod l + 1 \<le> l" using assms(1) by (simp add: Suc_leI)
    then have "real (Q mod l + 1) \<le> real l" by (simp only: of_nat_le_iff)
    then have "real Q + 1 \<le> real ?k * real l + real l" using Qd by simp
    moreover have "(real ?k + 1 - 1 / real l) * real l = real ?k * real l + real l - 1"
      using l by (simp add: algebra_simps)
    ultimately have "real Q \<le> (real ?k + 1 - 1 / real l) * real l" by linarith
    then show ?thesis using l by (simp only: pos_divide_le_eq)
  qed
  have Q53: "real Q < pow2 53"
  proof -
    have "real Q < real (2 ^ 53)" using assms(3) by (simp only: of_nat_less_iff)
    then show ?thesis by (simp add: pow2_def)
  qed
  have l53: "real l < pow2 53"
  proof -
    have "real l < real (2 ^ 53)" using assms(2) by (simp only: of_nat_less_iff)
    then show ?thesis by (simp add: pow2_def)
  qed
  have x53: "?x < pow2 53"
  proof -
    have "1 \<le> real l" using assms(1) by simp
    then have "?x \<le> real Q" using l by (simp add: field_simps mult_le_cancel_left1)
    then show ?thesis using Q53 by linarith
  qed
  have ge: "real ?k \<le> y"
    using roundNumber_ge_int [of "int ?k" ?x y] lo x53 assms(4) by simp
  let ?e = "expo ?x"
  let ?q = "pow2 (max ?e (- 1022) - 52)"
  have u: "y \<le> ?x + ?q / 2" using x assms(4) by (rule roundNumber_upper)
  have half: "?q / 2 < 1 / real l"
  proof -
    have p53: "pow2 53 * (1 / real l) > 1" using l53 l by (simp add: field_simps)
    have a: "pow2 ?e * pow2 (- 53) < 1 / real l"
    proof -
      have "pow2 ?e \<le> ?x" using expo_bounds [OF x] by simp
      also have "?x < pow2 53 * (1 / real l)" using Q53 l by (simp add: field_simps)
      finally have "pow2 ?e * pow2 (- 53) < (pow2 53 * (1 / real l)) * pow2 (- 53)"
        using pow2_pos [of "- 53"] by (simp only: mult_less_cancel_right_pos)
      moreover have "pow2 53 * pow2 (- 53) = 1" using pow2_add [of 53 "- 53"] by (simp add: pow2_zero)
      ultimately show ?thesis by (simp add: mult.commute mult.left_commute)
    qed
    have b: "pow2 (- 1022) * pow2 (- 53) < 1 / real l"
    proof -
      have "pow2 (- 1022 + - 53) \<le> pow2 (- 53)" by (simp add: pow2_le_iff)
      moreover have "pow2 (- 53) < 1 / real l"
      proof -
        have "pow2 (- 53) * pow2 53 = 1" using pow2_add [of "- 53" 53] by (simp add: pow2_zero)
        then have "pow2 (- 53) * real l < 1"
          using l53 pow2_pos [of "- 53"] mult_strict_left_mono [of "real l" "pow2 53" "pow2 (- 53)"]
          by simp
        then show ?thesis using l by (simp add: field_simps)
      qed
      ultimately have "pow2 (- 1022 + - 53) < 1 / real l" by linarith
      then show ?thesis by (simp only: pow2_add)
    qed
    have "?q / 2 = pow2 (max ?e (- 1022) + - 53)" 
    proof -
      have "pow2 (max ?e (- 1022) - 52) = pow2 (max ?e (- 1022) + - 53 + 1)" by simp
      also have "\<dots> = pow2 (max ?e (- 1022) + - 53) * pow2 1" by (simp only: pow2_add)
      finally show ?thesis by (simp add: pow2_def)
    qed
    also have "\<dots> = pow2 (max ?e (- 1022)) * pow2 (- 53)" by (simp only: pow2_add)
    also have "\<dots> < 1 / real l" using a b by (simp add: max_def)
    finally show ?thesis .
  qed
  have "y < real ?k + 1" using u half hi by linarith
  then have "y < of_int (int ?k) + 1" by simp
  moreover have "of_int (int ?k) \<le> y" using ge by simp
  ultimately show ?thesis by (intro floor_unique)
qed

text \<open>Whole numbers up to \<open>2 ^ 53\<close> are doubles.\<close>

lemma roundNumber_numeral [simp]:
  "numeral k \<le> (2::int) ^ 53 \<Longrightarrow> roundNumber (numeral k) = Num (numeral k)"
  using roundNumber_int [of "numeral k"] by simp

lemma roundNumber_0 [simp]: "roundNumber 0 = Num 0"
  by (simp add: roundNumber_def)

lemma roundNumber_1 [simp]: "roundNumber 1 = Num 1"
  using roundNumber_int [of 1] by simp

lemma roundNumber_nat:
  assumes "n \<le> 2 ^ 53"
  shows "roundNumber (real n) = Num (real n)"
proof -
  have "int n \<le> int (2 ^ 53)" using assms by (simp only: of_nat_le_iff)
  then have "\<bar>int n\<bar> \<le> 2 ^ 53" by simp
  then have "roundNumber (of_int (int n)) = Num (of_int (int n))" by (rule roundNumber_int)
  then show ?thesis by simp
qed

text \<open>A number half way between two doubles goes to the one with the even significand.\<close>

lemma roundHalfEven_tie: "roundHalfEven (of_int n + 1 / 2) = (if even n then n else n + 1)"
proof -
  have "\<lfloor>real_of_int n + 1 / 2\<rfloor> = n" by (intro floor_unique) simp_all
  then show ?thesis by (simp add: roundHalfEven_def Let_def)
qed

lemma roundNumber_tie:
  assumes "pow2 e \<le> x" "x < pow2 (e + 1)"
    and "q = pow2 (max e (- 1022) - 52)"
    and "x / q = of_int n + 1 / 2"
    and "m = (if even n then n else n + 1)"
    and "of_int m * q < pow2 1024"
  shows "roundNumber x = Num (of_int m * q)"
proof -
  have x: "0 < x" using assms(1) pow2_pos [of e] by linarith
  have e: "expo x = e" using assms(1,2) by (rule expo_eq)
  have r: "roundHalfEven (x / q) = m" unfolding assms(4) assms(5) by (rule roundHalfEven_tie)
  show ?thesis using x e r assms(3,6) by (simp add: roundNumber_def Let_def)
qed

text \<open>
  The roundings that the examples below go through. Each is an instance of
  \<open>roundNumber_pos\<close> or \<open>roundNumber_tie\<close>, with the exponent and the significand given.
\<close>

lemma roundNumber_inst_1: "roundNumber (1 / 10) = Num (3602879701896397 / 36028797018963968)"
  by (rule roundNumber_pos [where e = "- 4" and m = 7205759403792794 and q = "pow2 (- 56)", THEN trans])
    (simp_all add: pow2_def)

lemma roundNumber_inst_2: "roundNumber (3602879701896397 / 36028797018963968) = Num (3602879701896397 / 36028797018963968)"
  by (rule roundNumber_pos [where e = "- 4" and m = 7205759403792794 and q = "pow2 (- 56)", THEN trans])
    (simp_all add: pow2_def)

lemma roundNumber_inst_3: "roundNumber (225179981368525 / 2251799813685248) = Num (225179981368525 / 2251799813685248)"
  by (rule roundNumber_pos [where e = "- 4" and m = 7205759403792800 and q = "pow2 (- 56)", THEN trans])
    (simp_all add: pow2_def)

lemma roundNumber_inst_4: "roundNumber (1 / 5) = Num (3602879701896397 / 18014398509481984)"
  by (rule roundNumber_pos [where e = "- 3" and m = 7205759403792794 and q = "pow2 (- 55)", THEN trans])
    (simp_all add: pow2_def)

lemma roundNumber_inst_5: "roundNumber (4 / 15) = Num (4803839602528529 / 18014398509481984)"
  by (rule roundNumber_pos [where e = "- 2" and m = 4803839602528529 and q = "pow2 (- 54)", THEN trans])
    (simp_all add: pow2_def)

lemma roundNumber_inst_6: "roundNumber (3 / 10) = Num (5404319552844595 / 18014398509481984)"
  by (rule roundNumber_pos [where e = "- 2" and m = 5404319552844595 and q = "pow2 (- 54)", THEN trans])
    (simp_all add: pow2_def)

lemma roundNumber_inst_7: "roundNumber (18014398509481985 / 18014398509481984) = Num (1)"
  by (rule roundNumber_pos [where e = "0" and m = 4503599627370496 and q = "pow2 (- 52)", THEN trans])
    (simp_all add: pow2_def)

lemma roundNumber_inst_8: "roundNumber (11 / 10) = Num (2476979795053773 / 2251799813685248)"
  by (rule roundNumber_pos [where e = "0" and m = 4953959590107546 and q = "pow2 (- 52)", THEN trans])
    (simp_all add: pow2_def)

lemma roundNumber_inst_9: "roundNumber (4 / 3) = Num (6004799503160661 / 4503599627370496)"
  by (rule roundNumber_pos [where e = "0" and m = 6004799503160661 and q = "pow2 (- 52)", THEN trans])
    (simp_all add: pow2_def)

lemma roundNumber_inst_10: "roundNumber (18014398509481985 / 9007199254740992) = Num (2)"
  by (rule roundNumber_pos [where e = "1" and m = 4503599627370496 and q = "pow2 (- 51)", THEN trans])
    (simp_all add: pow2_def)

lemma roundNumber_inst_11: "roundNumber (2476979795053773 / 1125899906842624) = Num (2476979795053773 / 1125899906842624)"
  by (rule roundNumber_pos [where e = "1" and m = 4953959590107546 and q = "pow2 (- 51)", THEN trans])
    (simp_all add: pow2_def)

lemma roundNumber_inst_12: "roundNumber (1080863910568919 / 360287970189640) = Num (3377699720527869 / 1125899906842624)"
  by (rule roundNumber_pos [where e = "1" and m = 6755399441055738 and q = "pow2 (- 51)", THEN trans])
    (simp_all add: pow2_def)

lemma roundNumber_inst_13: "roundNumber (36028797018963968 / 3602879701896397) = Num (10)"
  by (rule roundNumber_pos [where e = "3" and m = 5629499534213120 and q = "pow2 (- 49)", THEN trans])
    (simp_all add: pow2_def)

lemma roundNumber_inst_14: "roundNumber (471 / 20) = Num (6628735701535949 / 281474976710656)"
  by (rule roundNumber_pos [where e = "4" and m = 6628735701535949 and q = "pow2 (- 48)", THEN trans])
    (simp_all add: pow2_def)

lemma roundNumber_inst_15: "roundNumber (6628735701535949 / 281474976710656) = Num (6628735701535949 / 281474976710656)"
  by (rule roundNumber_pos [where e = "4" and m = 6628735701535949 and q = "pow2 (- 48)", THEN trans])
    (simp_all add: pow2_def)

lemma roundNumber_inst_16: "roundNumber (471 / 10) = Num (6628735701535949 / 140737488355328)"
  by (rule roundNumber_pos [where e = "5" and m = 6628735701535949 and q = "pow2 (- 47)", THEN trans])
    (simp_all add: pow2_def)

lemma roundNumber_inst_17: "roundNumber (7802021920707811328 / 6628735701535949) = Num (1177)"
  by (rule roundNumber_pos [where e = "10" and m = 5176500743569408 and q = "pow2 (- 42)", THEN trans])
    (simp_all add: pow2_def)

lemma roundNumber_inst_18: "roundNumber (554367 / 20) = Num (3809581015970611 / 137438953472)"
  by (rule roundNumber_pos [where e = "14" and m = 7619162031941222 and q = "pow2 (- 38)", THEN trans])
    (simp_all add: pow2_def)

lemma roundNumber_inst_19: "roundNumber (7802021920707811973 / 281474976710656) = Num (7619162031941223 / 274877906944)"
  by (rule roundNumber_pos [where e = "14" and m = 7619162031941223 and q = "pow2 (- 38)", THEN trans])
    (simp_all add: pow2_def)

lemma roundNumber_inst_20: "roundNumber (7802021920707811973 / 140737488355328) = Num (7619162031941223 / 137438953472)"
  by (rule roundNumber_pos [where e = "15" and m = 7619162031941223 and q = "pow2 (- 37)", THEN trans])
    (simp_all add: pow2_def)

lemma roundNumber_inst_21: "roundNumber (95239525399265275 / 34359738368) = Num (2771835)"
  by (rule roundNumber_pos [where e = "21" and m = 5952470337454080 and q = "pow2 (- 31)", THEN trans])
    (simp_all add: pow2_def)

lemma roundNumber_inst_22: "roundNumber (40000000000000000 / 3) = Num (13333333333333334)"
  by (rule roundNumber_pos [where e = "53" and m = 6666666666666667 and q = "pow2 (1)", THEN trans])
    (simp_all add: pow2_def)

lemma roundNumber_inst_23: "roundNumber (1000000000000000000) = Num (1000000000000000000)"
  by (rule roundNumber_pos [where e = "59" and m = 7812500000000000 and q = "pow2 (7)", THEN trans])
    (simp_all add: pow2_def)

lemma roundNumber_inst_24: "roundNumber (1000000000000000050) = Num (1000000000000000000)"
  by (rule roundNumber_pos [where e = "59" and m = 7812500000000000 and q = "pow2 (7)", THEN trans])
    (simp_all add: pow2_def)

lemma roundNumber_inst_25: "roundNumber (2000000000000000000) = Num (2000000000000000000)"
  by (rule roundNumber_pos [where e = "60" and m = 7812500000000000 and q = "pow2 (8)", THEN trans])
    (simp_all add: pow2_def)

lemma roundNumber_inst_26: "roundNumber (100000000000000000000) = Num (100000000000000000000)"
  by (rule roundNumber_pos [where e = "66" and m = 6103515625000000 and q = "pow2 (14)", THEN trans])
    (simp_all add: pow2_def)

lemma roundNumber_inst_27: "roundNumber (5404319552844595 / 18014398509481984) = Num (5404319552844595 / 18014398509481984)"
  by (rule roundNumber_pos [where e = "- 2" and m = 5404319552844595 and q = "pow2 (- 54)", THEN trans])
    (simp_all add: pow2_def)

lemma roundNumber_inst_28: "roundNumber (10808639105689191 / 36028797018963968) = Num (1351079888211149 / 4503599627370496)"
  by (rule roundNumber_tie [where e = "- 2" and n = 5404319552844595 and m = 5404319552844596 and q = "pow2 (- 54)", THEN trans])
    (simp_all add: pow2_def)

lemma roundNumber_inst_29: "roundNumber (1 / 2) = Num (1 / 2)"
  by (rule roundNumber_pos [where e = "- 1" and m = 4503599627370496 and q = "pow2 (- 53)", THEN trans])
    (simp_all add: pow2_def)

lemma roundNumber_inst_30: "roundNumber (5404319552844595 / 9007199254740992) = Num (5404319552844595 / 9007199254740992)"
  by (rule roundNumber_pos [where e = "- 1" and m = 5404319552844595 and q = "pow2 (- 53)", THEN trans])
    (simp_all add: pow2_def)

lemma roundNumber_inst_31: "roundNumber (21617278211378381 / 36028797018963968) = Num (5404319552844595 / 9007199254740992)"
  by (rule roundNumber_pos [where e = "- 1" and m = 5404319552844595 and q = "pow2 (- 53)", THEN trans])
    (simp_all add: pow2_def)

lemma roundNumber_inst_32: "roundNumber (10808639105689191 / 18014398509481984) = Num (1351079888211149 / 2251799813685248)"
  by (rule roundNumber_tie [where e = "- 1" and n = 5404319552844595 and m = 5404319552844596 and q = "pow2 (- 53)", THEN trans])
    (simp_all add: pow2_def)

lemma roundNumber_inst_33: "roundNumber (1351079888211149 / 2251799813685248) = Num (1351079888211149 / 2251799813685248)"
  by (rule roundNumber_pos [where e = "- 1" and m = 5404319552844596 and q = "pow2 (- 53)", THEN trans])
    (simp_all add: pow2_def)

lemmas roundings = roundNumber_inst_1 roundNumber_inst_2 roundNumber_inst_3 roundNumber_inst_4 roundNumber_inst_5 roundNumber_inst_6 roundNumber_inst_7 roundNumber_inst_8 roundNumber_inst_9 roundNumber_inst_10 roundNumber_inst_11 roundNumber_inst_12 roundNumber_inst_13 roundNumber_inst_14 roundNumber_inst_15 roundNumber_inst_16 roundNumber_inst_17 roundNumber_inst_18 roundNumber_inst_19 roundNumber_inst_20 roundNumber_inst_21 roundNumber_inst_22 roundNumber_inst_23 roundNumber_inst_24 roundNumber_inst_25 roundNumber_inst_26
  roundNumber_inst_27 roundNumber_inst_28 roundNumber_inst_29 roundNumber_inst_30 roundNumber_inst_31 roundNumber_inst_32 roundNumber_inst_33

lemmas sizing_defs = results_def decimal_def rawQty_def adjustLot_def INDICES_LOT_SIZES_def
  num_sub_def lotSizeOf_def roundNumber_minus

section \<open>Position sizing: proofs\<close>

lemma lot_table:
  assumes "INDICES_LOT_SIZES i = Some n"
  shows "\<exists>l::nat. n = Num (real l) \<and> 0 < l \<and> l < 2 ^ 53"
proof -
  have "n \<in> {Num 75, Num 15, Num 25, Num 50, Num 10, Num 1}"
    using assms by (auto simp: INDICES_LOT_SIZES_def split: if_splits)
  then consider "n = Num (real 75)" | "n = Num (real 15)" | "n = Num (real 25)"
    | "n = Num (real 50)" | "n = Num (real 10)" | "n = Num (real 1)" by auto
  then show ?thesis
  proof cases
    case 1 then show ?thesis by (intro exI [of _ 75]) simp
  next
    case 2 then show ?thesis by (intro exI [of _ 15]) simp
  next
    case 3 then show ?thesis by (intro exI [of _ 25]) simp
  next
    case 4 then show ?thesis by (intro exI [of _ 50]) simp
  next
    case 5 then show ?thesis by (intro exI [of _ 10]) simp
  next
    case 6 then show ?thesis by (intro exI [of _ 1]) simp
  qed
qed

lemma adjustLot_nat:
  fixes Q l :: nat
  assumes "1 < l" "l < 2 ^ 53" "Q < 2 ^ 53"
  shows "adjustLot (Some (Num (real l))) (Num (real Q)) =
           (Num (real (Q div l)), Num (real (Q div l * l)))"
proof -
  have l0: "0 < l" using assms(1) by simp
  have x0: "0 \<le> real Q / real l" by simp
  have "real Q < real (2 ^ 53)" using assms(3) by (simp only: of_nat_less_iff)
  then have "real Q < pow2 53" by (simp add: pow2_def)
  moreover have "real Q / real l \<le> real Q" using l0 by (simp add: field_simps mult_le_cancel_left1)
  moreover have "pow2 53 \<le> pow2 1023" by (simp add: pow2_le_iff)
  ultimately have "real Q / real l < pow2 1023" by linarith
  then obtain y where y: "roundNumber (real Q / real l) = Num y"
    using roundNumber_finite [OF x0] by blast
  have f: "\<lfloor>y\<rfloor> = int (Q div l)" using l0 assms(2,3) y by (rule floor_roundNumber_div)
  have d: "num_div (Num (real Q)) (Num (real l)) = Num y" using l0 y by simp
  have m: "Math_floor (num_div (Num (real Q)) (Num (real l))) = Num (real (Q div l))"
    using d f by simp
  have "Q div l * l \<le> Q" by simp
  then have "Q div l * l \<le> 2 ^ 53" using assms(3) by linarith
  then have "roundNumber (real (Q div l * l)) = Num (real (Q div l * l))" by (rule roundNumber_nat)
  then have p: "num_mul (Num (real (Q div l))) (Num (real l)) = Num (real (Q div l * l))"
    by simp
  have g: "num_gt (Num (real l)) (Num 1)" using assms(1) by simp
  show ?thesis unfolding adjustLot_def option.case using g by (simp only: m p if_True)
qed

lemma results_riskAmount:
  "riskAmount (results c r e s i) = num_div (num_mul c r) (Num 100)"
  by (simp add: results_def Let_def split: prod.splits)

lemma results_slPoints:
  "slPoints (results c r e s i) =
     (if num_gt e (Num 0) \<and> num_gt s (Num 0) then Math_abs (num_sub e s) else Num 0)"
  by (simp add: results_def Let_def split: prod.splits)

lemma results_qty:
  "qty (results c r e s i) =
     (if num_gt e (Num 0) \<and> num_gt s (Num 0) \<and> num_gt (Math_abs (num_sub e s)) (Num 0)
      then snd (adjustLot (INDICES_LOT_SIZES i)
                  (rawQty (num_div (num_mul c r) (Num 100)) (Math_abs (num_sub e s))))
      else Num 0)"
  by (simp add: results_def Let_def split: prod.splits)

lemma results_lots:
  "lots (results c r e s i) =
     (if num_gt e (Num 0) \<and> num_gt s (Num 0) \<and> num_gt (Math_abs (num_sub e s)) (Num 0)
      then fst (adjustLot (INDICES_LOT_SIZES i)
                  (rawQty (num_div (num_mul c r) (Num 100)) (Math_abs (num_sub e s))))
      else Num 0)"
  by (simp add: results_def Let_def split: prod.splits)

lemma results_totalValue:
  "totalValue (results c r e s i) =
     (if num_gt e (Num 0) \<and> num_gt s (Num 0) \<and> num_gt (Math_abs (num_sub e s)) (Num 0)
      then num_mul (qty (results c r e s i)) e
      else Num 0)"
  by (simp add: results_def Let_def split: prod.splits)

text \<open>
  The final quantity for a raw quantity that is a natural number below \<open>2 ^ 53\<close>: a
  natural number of lots, times the lot size, and never above the raw quantity.
\<close>

lemma adjustLot_multiple:
  fixes Q :: nat
  assumes "Q < 2 ^ 53"
  shows "\<exists>k::nat. adjustLot (INDICES_LOT_SIZES i) (Num (real Q)) =
           (Num (real k), Num (real k * lotSizeOf i))
         \<and> real k * lotSizeOf i \<le> real Q"
proof (cases "INDICES_LOT_SIZES i")
  case None
  then have "adjustLot (INDICES_LOT_SIZES i) (Num (real Q)) = (Num (real Q), Num (real Q * lotSizeOf i))"
    by (simp add: adjustLot_def lotSizeOf_def)
  moreover have "real Q * lotSizeOf i \<le> real Q" using None by (simp add: lotSizeOf_def)
  ultimately show ?thesis by blast
next
  case (Some n)
  then obtain l :: nat where l: "n = Num (real l)" "0 < l" "l < 2 ^ 53"
    using lot_table by blast
  have ls: "lotSizeOf i = real l" using Some l(1) by (simp add: lotSizeOf_def)
  show ?thesis
  proof (cases "1 < l")
    case True
    have a: "adjustLot (INDICES_LOT_SIZES i) (Num (real Q)) =
               (Num (real (Q div l)), Num (real (Q div l) * lotSizeOf i))"
      using adjustLot_nat [OF True l(3) assms] Some l(1) ls by simp
    have "Q div l * l \<le> Q" by simp
    then have "real (Q div l * l) \<le> real Q" by (simp only: of_nat_le_iff)
    then have "real (Q div l) * lotSizeOf i \<le> real Q" using ls by simp
    then show ?thesis using a by blast
  next
    case False
    then have l1: "l = 1" using l(2) by simp
    have "adjustLot (INDICES_LOT_SIZES i) (Num (real Q)) = (Num (real Q), Num (real Q * lotSizeOf i))"
      using Some l(1) l1 ls by (simp add: adjustLot_def)
    moreover have "real Q * lotSizeOf i \<le> real Q" using ls l1 by simp
    ultimately show ?thesis by blast
  qed
qed

text \<open>
  Claim C1, as stated, fails where the guard \<^verbatim>\<open>entryPrice > 0 && stopLoss > 0\<close> does:
  with capital 100000, risk 2, entry 100 and stop 0 (the stop field's initial value) the
  distance of entry and stop is 100, which is above 0, and the floor of the risk amount
  over it is 20, but the calculator returns the quantity 0 and reports the stop distance
  0.
\<close>

theorem results_unguarded_counterexample:
  "num_gt (Math_abs (num_sub (Num 100) (Num 0))) (Num 0)
   \<and> Math_floor (num_div (num_div (num_mul (Num 100000) (Num 2)) (Num 100))
                          (Math_abs (num_sub (Num 100) (Num 0)))) = Num 20
   \<and> qty (results (Num 100000) (Num 2) (Num 100) (Num 0) ''EQUITY'') = Num 0
   \<and> Math_abs (num_sub (Num 100) (Num 0)) = Num 100
   \<and> slPoints (results (Num 100000) (Num 2) (Num 100) (Num 0) ''EQUITY'') = Num 0"
  by (simp add: sizing_defs)

text \<open>
  Claim C1, amended: in double arithmetic, for every capital \<open>c\<close>, risk percentage \<open>r\<close>,
  entry \<open>e\<close>, stop \<open>s\<close> and instrument \<open>i\<close>, the risk amount is \<open>c * r / 100\<close>. The
  reported stop distance is \<open>\<bar>e - s\<bar>\<close> when entry and stop are both above 0, and 0
  otherwise. When entry and stop are above 0 and their distance is above 0, the raw
  quantity is \<open>floor (riskAmount / stopDistance)\<close>, an instrument with a lot size above 1
  gets \<open>lots = floor (rawQuantity / lotSize)\<close> and \<open>qty = lots * lotSize\<close>, any other
  instrument \<open>lots = qty = rawQuantity\<close>, and the total value is \<open>qty * e\<close>. In every other
  case quantity, lots and value are 0. Every operation is the one of the doubles: the
  quotient is rounded to the nearest double before the floor is taken, so that capital
  30 at 1 percent with entry 1.1 and stop 1 gives the quantity 2, where the quotient of
  the decimal values has the floor 3.
\<close>

theorem results_guarded:
  "riskAmount (results c r e s i) = num_div (num_mul c r) (Num 100)
   \<and> slPoints (results c r e s i) =
       (if num_gt e (Num 0) \<and> num_gt s (Num 0) then Math_abs (num_sub e s) else Num 0)
   \<and> (num_gt e (Num 0) \<and> num_gt s (Num 0) \<and> num_gt (Math_abs (num_sub e s)) (Num 0) \<longrightarrow>
        (case INDICES_LOT_SIZES i of
           Some l \<Rightarrow>
             if num_gt l (Num 1)
             then lots (results c r e s i) =
                    Math_floor (num_div (Math_floor (num_div (num_div (num_mul c r) (Num 100))
                                                       (Math_abs (num_sub e s)))) l)
                \<and> qty (results c r e s i) = num_mul (lots (results c r e s i)) l
             else qty (results c r e s i) =
                    Math_floor (num_div (num_div (num_mul c r) (Num 100)) (Math_abs (num_sub e s)))
                \<and> lots (results c r e s i) = qty (results c r e s i)
         | None \<Rightarrow>
             qty (results c r e s i) =
               Math_floor (num_div (num_div (num_mul c r) (Num 100)) (Math_abs (num_sub e s)))
             \<and> lots (results c r e s i) = qty (results c r e s i))
        \<and> totalValue (results c r e s i) = num_mul (qty (results c r e s i)) e)
   \<and> (\<not> (num_gt e (Num 0) \<and> num_gt s (Num 0) \<and> num_gt (Math_abs (num_sub e s)) (Num 0)) \<longrightarrow>
        qty (results c r e s i) = Num 0 \<and> lots (results c r e s i) = Num 0
        \<and> totalValue (results c r e s i) = Num 0)"
proof (intro conjI impI)
  show "riskAmount (results c r e s i) = num_div (num_mul c r) (Num 100)"
    by (rule results_riskAmount)
  show "slPoints (results c r e s i) =
       (if num_gt e (Num 0) \<and> num_gt s (Num 0) then Math_abs (num_sub e s) else Num 0)"
    by (rule results_slPoints)
next
  assume g: "num_gt e (Num 0) \<and> num_gt s (Num 0) \<and> num_gt (Math_abs (num_sub e s)) (Num 0)"
  show "totalValue (results c r e s i) = num_mul (qty (results c r e s i)) e"
    using g by (simp add: results_totalValue)
  show "case INDICES_LOT_SIZES i of
           Some l \<Rightarrow>
             if num_gt l (Num 1)
             then lots (results c r e s i) =
                    Math_floor (num_div (Math_floor (num_div (num_div (num_mul c r) (Num 100))
                                                       (Math_abs (num_sub e s)))) l)
                \<and> qty (results c r e s i) = num_mul (lots (results c r e s i)) l
             else qty (results c r e s i) =
                    Math_floor (num_div (num_div (num_mul c r) (Num 100)) (Math_abs (num_sub e s)))
                \<and> lots (results c r e s i) = qty (results c r e s i)
         | None \<Rightarrow>
             qty (results c r e s i) =
               Math_floor (num_div (num_div (num_mul c r) (Num 100)) (Math_abs (num_sub e s)))
             \<and> lots (results c r e s i) = qty (results c r e s i)"
    using g by (simp add: results_qty results_lots adjustLot_def rawQty_def split: option.splits)
next
  assume g: "\<not> (num_gt e (Num 0) \<and> num_gt s (Num 0) \<and> num_gt (Math_abs (num_sub e s)) (Num 0))"
  show "qty (results c r e s i) = Num 0" using g by (simp only: results_qty if_False)
  show "lots (results c r e s i) = Num 0" using g by (simp only: results_lots if_False)
  show "totalValue (results c r e s i) = Num 0" using g by (simp only: results_totalValue if_False)
qed

theorem results_guarded_witness:
  "results (Num 100000) (Num 2) (Num 20000) (Num 19900) ''EQUITY'' =
     \<lparr>riskAmount = Num 2000, slPoints = Num 100, qty = Num 20, lots = Num 20,
      totalValue = Num 400000\<rparr>
   \<and> results (Num 100000) (Num 2) (Num 20000) (Num 19900) ''BANKNIFTY'' =
     \<lparr>riskAmount = Num 2000, slPoints = Num 100, qty = Num 15, lots = Num 1,
      totalValue = Num 300000\<rparr>
   \<and> results (Num 100000) (Num 2) (Num 0) (Num 19900) ''EQUITY'' =
     \<lparr>riskAmount = Num 2000, slPoints = Num 0, qty = Num 0, lots = Num 0, totalValue = Num 0\<rparr>
   \<and> results (Num 100000) (Num 2) (Num 500) (Num 500) ''EQUITY'' =
     \<lparr>riskAmount = Num 2000, slPoints = Num 0, qty = Num 0, lots = Num 0, totalValue = Num 0\<rparr>
   \<and> results (Num 100000) (Num 2) (Num 20000) (Num 19900) ''GOLD'' =
     \<lparr>riskAmount = Num 2000, slPoints = Num 100, qty = Num 20, lots = Num 20,
      totalValue = Num 400000\<rparr>
   \<and> qty (results (Num 30) (Num 1) (decimal (11 / 10)) (Num 1) ''EQUITY'') = Num 2
   \<and> \<lfloor>(30 * 1 / 100) / \<bar>11 / 10 - 1\<bar> :: real\<rfloor> = 3"
proof -
  have a: "results (Num 100000) (Num 2) (Num 20000) (Num 19900) ''EQUITY'' =
     \<lparr>riskAmount = Num 2000, slPoints = Num 100, qty = Num 20, lots = Num 20,
      totalValue = Num 400000\<rparr>"
    using results_guarded [of "Num 100000" "Num 2" "Num 20000" "Num 19900" "''EQUITY''"]
    by (intro calc_results.equality) (simp_all add: INDICES_LOT_SIZES_def num_sub_def)
  have b: "results (Num 100000) (Num 2) (Num 20000) (Num 19900) ''BANKNIFTY'' =
     \<lparr>riskAmount = Num 2000, slPoints = Num 100, qty = Num 15, lots = Num 1,
      totalValue = Num 300000\<rparr>"
    using results_guarded [of "Num 100000" "Num 2" "Num 20000" "Num 19900" "''BANKNIFTY''"]
    by (intro calc_results.equality) (simp_all add: INDICES_LOT_SIZES_def num_sub_def roundings)
  have c: "results (Num 100000) (Num 2) (Num 0) (Num 19900) ''EQUITY'' =
     \<lparr>riskAmount = Num 2000, slPoints = Num 0, qty = Num 0, lots = Num 0, totalValue = Num 0\<rparr>"
    using results_guarded [of "Num 100000" "Num 2" "Num 0" "Num 19900" "''EQUITY''"]
    by (intro calc_results.equality) (simp_all add: INDICES_LOT_SIZES_def num_sub_def)
  have d: "results (Num 100000) (Num 2) (Num 500) (Num 500) ''EQUITY'' =
     \<lparr>riskAmount = Num 2000, slPoints = Num 0, qty = Num 0, lots = Num 0, totalValue = Num 0\<rparr>"
    using results_guarded [of "Num 100000" "Num 2" "Num 500" "Num 500" "''EQUITY''"]
    by (intro calc_results.equality) (simp_all add: INDICES_LOT_SIZES_def num_sub_def)
  have g: "results (Num 100000) (Num 2) (Num 20000) (Num 19900) ''GOLD'' =
     \<lparr>riskAmount = Num 2000, slPoints = Num 100, qty = Num 20, lots = Num 20,
      totalValue = Num 400000\<rparr>"
    using results_guarded [of "Num 100000" "Num 2" "Num 20000" "Num 19900" "''GOLD''"]
    by (intro calc_results.equality) (simp_all add: INDICES_LOT_SIZES_def num_sub_def)
  have e: "qty (results (Num 30) (Num 1) (decimal (11 / 10)) (Num 1) ''EQUITY'') = Num 2"
    using results_guarded [of "Num 30" "Num 1" "decimal (11 / 10)" "Num 1" "''EQUITY''"]
    by (simp add: INDICES_LOT_SIZES_def num_sub_def decimal_def roundings)
  have f: "\<lfloor>(30 * 1 / 100) / \<bar>11 / 10 - 1\<bar> :: real\<rfloor> = 3" by simp
  show ?thesis using a b c d g e f by (intro conjI)
qed

text \<open>
  Claim C7, as stated, fails in three ways. A negative capital, which the capital field
  accepts, gives a negative quantity: capital -100000 at 2 percent, entry 20000, stop
  19900 on NIFTY gives -75. The quotient is rounded before the floor is taken: capital
  27718.35 at 100 percent with entry 47.1 and stop 23.55 gives the quantity 1177, and
  1177 times the stop distance is above the risk amount, as an exact product and as the
  product of the doubles. And a product above \<open>2 ^ 53\<close> is rounded: capital \<open>10 ^ 18\<close>
  at 100 percent with entry 2 and stop 1 on NIFTY gives 13333333333333334 lots and the
  quantity \<open>10 ^ 18\<close>, which is not a multiple of 75.
\<close>

theorem results_risk_budget_counterexample:
  "qty (results (Num (- 100000)) (Num 2) (Num 20000) (Num 19900) ''NIFTY'') = Num (- 75)
   \<and> lotSizeOf ''NIFTY'' = 75
   \<and> results (decimal 27718.35) (Num 100) (decimal 47.1) (decimal 23.55) ''EQUITY'' =
       \<lparr>riskAmount = Num (3809581015970611 / 137438953472),
        slPoints = Num (6628735701535949 / 281474976710656),
        qty = Num 1177, lots = Num 1177,
        totalValue = Num (7619162031941223 / 137438953472)\<rparr>
   \<and> (3809581015970611 / 137438953472 :: real) < 1177 * (6628735701535949 / 281474976710656)
   \<and> num_gt (num_mul (Num 1177) (Num (6628735701535949 / 281474976710656)))
        (Num (3809581015970611 / 137438953472))
   \<and> qty (results (Num 1000000000000000000) (Num 100) (Num 2) (Num 1) ''NIFTY'')
       = Num 1000000000000000000
   \<and> lots (results (Num 1000000000000000000) (Num 100) (Num 2) (Num 1) ''NIFTY'')
       = Num 13333333333333334
   \<and> (1000000000000000000 :: int) mod 75 = 25"
  by (simp add: sizing_defs roundings Let_def)

text \<open>
  Claim C7, amended: for every input whose risk amount is a number that is not negative
  and whose raw quantity, when the guards let one be computed, is below \<open>2 ^ 53\<close>, the
  final quantity is a natural number of times the instrument's lot size (1 for an
  instrument without a table entry); the final quantity times the stop distance, the
  distance \<open>\<bar>e - s\<bar>\<close> as the distance the calculator reports, is at most the risk amount
  times \<open>1 + 2 ^ - 53\<close>, and at most the risk amount itself when the quotient of risk
  amount and stop distance is a double, that is, is not rounded. In particular capital
  100000, risk 2, entry 20000, stop 19900 on NIFTY (lot size 75) gives risk amount 2000,
  stop distance 100, raw quantity 20, \<open>floor (20 / 75) = 0\<close> lots and final quantity 0.
\<close>

theorem results_risk_budget:
  assumes "riskAmount (results c r e s i) = Num ra" and "0 \<le> ra"
    and "num_gt e (Num 0) \<and> num_gt s (Num 0) \<and> num_gt (Math_abs (num_sub e s)) (Num 0)
         \<longrightarrow> (\<exists>Q < 2 ^ 53. rawQty (Num ra) (Math_abs (num_sub e s)) = Num Q)"
  shows "(\<exists>k::nat. qty (results c r e s i) = Num (real k * lotSizeOf i)
           \<and> (\<forall>d. Math_abs (num_sub e s) = Num d \<or> slPoints (results c r e s i) = Num d \<longrightarrow>
                 real k * lotSizeOf i * d \<le> ra * (1 + 1 / 2 ^ 53)
                 \<and> (roundNumber (ra / d) = Num (ra / d) \<longrightarrow> real k * lotSizeOf i * d \<le> ra)))
       \<and> lotSizeOf ''NIFTY'' = 75
       \<and> results (Num 100000) (Num 2) (Num 20000) (Num 19900) ''NIFTY'' =
           \<lparr>riskAmount = Num 2000, slPoints = Num 100, qty = Num 0, lots = Num 0,
            totalValue = Num 0\<rparr>
       \<and> rawQty (Num 2000) (Num 100) = Num 20
       \<and> Math_floor (num_div (Num 20) (Num 75)) = Num 0"
proof -
  let ?g = "num_gt e (Num 0) \<and> num_gt s (Num 0) \<and> num_gt (Math_abs (num_sub e s)) (Num 0)"
  let ?sl = "Math_abs (num_sub e s)"
  have scenario: "lotSizeOf ''NIFTY'' = 75
       \<and> results (Num 100000) (Num 2) (Num 20000) (Num 19900) ''NIFTY'' =
           \<lparr>riskAmount = Num 2000, slPoints = Num 100, qty = Num 0, lots = Num 0,
            totalValue = Num 0\<rparr>
       \<and> rawQty (Num 2000) (Num 100) = Num 20
       \<and> Math_floor (num_div (Num 20) (Num 75)) = Num 0"
    by (simp add: sizing_defs roundings)
  have risk: "num_div (num_mul c r) (Num 100) = Num ra"
    using assms(1) by (simp only: results_riskAmount)
  have general: "\<exists>k::nat. qty (results c r e s i) = Num (real k * lotSizeOf i)
           \<and> (\<forall>d. ?sl = Num d \<or> slPoints (results c r e s i) = Num d \<longrightarrow>
                 real k * lotSizeOf i * d \<le> ra * (1 + 1 / 2 ^ 53)
                 \<and> (roundNumber (ra / d) = Num (ra / d) \<longrightarrow> real k * lotSizeOf i * d \<le> ra))"
  proof (cases ?g)
    case False
    then have "qty (results c r e s i) = Num 0" by (simp only: results_qty if_False)
    then have "qty (results c r e s i) = Num (real 0 * lotSizeOf i)" by simp
    moreover have "\<forall>d. ?sl = Num d \<or> slPoints (results c r e s i) = Num d \<longrightarrow>
        real 0 * lotSizeOf i * d \<le> ra * (1 + 1 / 2 ^ 53)
        \<and> (roundNumber (ra / d) = Num (ra / d) \<longrightarrow> real 0 * lotSizeOf i * d \<le> ra)"
      using assms(2) by simp
    ultimately show ?thesis by blast
  next
    case True
    then obtain Q where Q: "Q < 2 ^ 53" "rawQty (Num ra) ?sl = Num Q" using assms(3) by blast
    have slp: "slPoints (results c r e s i) = ?sl" using True by (simp add: results_slPoints)
    have gt: "num_gt ?sl (Num 0)" using True by simp
    obtain y where y: "num_div (Num ra) ?sl = Num y" "Q = of_int \<lfloor>y\<rfloor>"
      using Q(2) by (cases "num_div (Num ra) ?sl") (simp_all add: rawQty_def)
    have y0: "0 \<le> y"
    proof (cases ?sl)
      case NaN
      then show ?thesis using gt by simp
    next
      case (Inf a)
      then show ?thesis using y(1) by simp
    next
      case (Num d)
      then have d: "0 < d" using gt by simp
      then have ry: "roundNumber (ra / d) = Num y" using y(1) Num by simp
      have "0 \<le> ra / d" using d assms(2) by simp
      then show ?thesis using ry by (rule roundNumber_nonneg_Num)
    qed
    define Qn where "Qn = nat \<lfloor>y\<rfloor>"
    have Qn: "real Qn = Q" using y0 y(2) by (simp add: Qn_def)
    have "real Qn < real (2 ^ 53)" using Q(1) Qn by simp
    then have Qn53: "Qn < 2 ^ 53" by (simp only: of_nat_less_iff)
    obtain k :: nat where k:
      "adjustLot (INDICES_LOT_SIZES i) (Num (real Qn)) = (Num (real k), Num (real k * lotSizeOf i))"
      "real k * lotSizeOf i \<le> real Qn"
      using adjustLot_multiple [OF Qn53, of i] by blast
    have q: "qty (results c r e s i) = Num (real k * lotSizeOf i)"
      using True k(1) Q(2) Qn risk by (simp add: results_qty)
    have b: "real k * lotSizeOf i * d \<le> ra * (1 + 1 / 2 ^ 53)
           \<and> (roundNumber (ra / d) = Num (ra / d) \<longrightarrow> real k * lotSizeOf i * d \<le> ra)"
      if "?sl = Num d \<or> slPoints (results c r e s i) = Num d" for d
    proof -
      have sl: "?sl = Num d" using that slp by auto
      have d: "0 < d" using gt sl by simp
      have ry: "roundNumber (ra / d) = Num y" using y(1) sl d by simp
      have x0: "0 \<le> ra / d" using d assms(2) by simp
      have le: "real k * lotSizeOf i * d \<le> real Qn * d"
        using k(2) d by (simp only: mult_le_cancel_right_pos)
      have "real Qn \<le> (ra / d) * (1 + 1 / 2 ^ 53)"
        using floor_roundNumber_le [OF x0 ry] Qn y(2) by simp
      then have "real Qn * d \<le> ((ra / d) * (1 + 1 / 2 ^ 53)) * d"
        using d by (simp only: mult_le_cancel_right_pos)
      also have "\<dots> = ra * (1 + 1 / 2 ^ 53)" using d by simp
      finally have one: "real k * lotSizeOf i * d \<le> ra * (1 + 1 / 2 ^ 53)" using le by linarith
      have two: "real k * lotSizeOf i * d \<le> ra" if "roundNumber (ra / d) = Num (ra / d)"
      proof -
        have "y = ra / d" using that ry by simp
        then have "real Qn \<le> ra / d" using Qn y(2) by simp
        then have "real Qn * d \<le> (ra / d) * d" using d by (simp only: mult_le_cancel_right_pos)
        then have "real Qn * d \<le> ra" using d by simp
        then show ?thesis using le by linarith
      qed
      show ?thesis using one two by blast
    qed
    show ?thesis using q b by blast
  qed
  show ?thesis using general scenario by blast
qed

theorem results_risk_budget_witness:
  "riskAmount (results (Num 100000) (Num 2) (Num 20000) (Num 19900) ''BANKNIFTY'') = Num 2000
   \<and> (0::real) \<le> 2000
   \<and> num_gt (Num 20000) (Num 0) \<and> num_gt (Num 19900) (Num 0)
   \<and> num_gt (Math_abs (num_sub (Num 20000) (Num 19900))) (Num 0)
   \<and> rawQty (Num 2000) (Math_abs (num_sub (Num 20000) (Num 19900))) = Num 20
   \<and> (20::real) < 2 ^ 53
   \<and> slPoints (results (Num 100000) (Num 2) (Num 20000) (Num 19900) ''BANKNIFTY'') = Num 100
   \<and> roundNumber (2000 / 100) = Num (2000 / 100)
   \<and> lotSizeOf ''BANKNIFTY'' = 15
   \<and> (\<exists>k::nat. qty (results (Num 100000) (Num 2) (Num 20000) (Num 19900) ''BANKNIFTY'')
                   = Num (real k * lotSizeOf ''BANKNIFTY'')
                \<and> real k * lotSizeOf ''BANKNIFTY'' * 100 \<le> 2000)"
proof -
  have a: "riskAmount (results (Num 100000) (Num 2) (Num 20000) (Num 19900) ''BANKNIFTY'') = Num 2000"
    by (simp add: results_riskAmount)
  have b: "(0::real) \<le> 2000" by simp
  have g: "num_gt (Num 20000) (Num 0) \<and> num_gt (Num 19900) (Num 0)
      \<and> num_gt (Math_abs (num_sub (Num 20000) (Num 19900))) (Num 0)"
    by (simp add: num_sub_def)
  have c: "rawQty (Num 2000) (Math_abs (num_sub (Num 20000) (Num 19900))) = Num 20"
    by (simp add: rawQty_def num_sub_def)
  have c': "num_gt (Num 20000) (Num 0) \<and> num_gt (Num 19900) (Num 0)
      \<and> num_gt (Math_abs (num_sub (Num 20000) (Num 19900))) (Num 0)
      \<longrightarrow> (\<exists>Q < 2 ^ 53. rawQty (Num 2000) (Math_abs (num_sub (Num 20000) (Num 19900))) = Num Q)"
    using c by simp
  have s: "slPoints (results (Num 100000) (Num 2) (Num 20000) (Num 19900) ''BANKNIFTY'') = Num 100"
    by (simp add: results_slPoints num_sub_def)
  have r: "roundNumber (2000 / 100) = Num (2000 / 100)" by simp
  have l: "lotSizeOf ''BANKNIFTY'' = 15" by (simp add: lotSizeOf_def INDICES_LOT_SIZES_def)
  have "\<exists>k::nat. qty (results (Num 100000) (Num 2) (Num 20000) (Num 19900) ''BANKNIFTY'')
                   = Num (real k * lotSizeOf ''BANKNIFTY'')
                \<and> real k * lotSizeOf ''BANKNIFTY'' * 100 \<le> 2000"
    using results_risk_budget [OF a b c'] s r by blast
  then show ?thesis using a b g c s r l by simp
qed

section \<open>Statistics engine: proofs\<close>

lemma insert_by_mset: "mset (insert_by cmp x ys) = add_mset x (mset ys)"
  by (induction ys) simp_all

lemma sort_by_mset: "mset (sort_by cmp xs) = mset xs"
  unfolding sort_by_def by (induction xs) (simp_all add: insert_by_mset)

lemma sort_by_set: "set (sort_by cmp xs) = set xs"
  using sort_by_mset [of cmp xs] by (metis set_mset_mset)

lemma sort_by_length: "length (sort_by cmp xs) = length xs"
  using sort_by_mset [of cmp xs] by (metis size_mset)

lemma foldl_add: "foldl (\<lambda>acc t. acc + f t) a ts = a + sum_list (map f ts)"
  for a :: real
  by (induction ts arbitrary: a) simp_all




lemma length_filter_sort:
  "length (filter P (sort_by cmp xs)) = length (filter P xs)"
proof -
  have "mset (filter P (sort_by cmp xs)) = mset (filter P xs)" by (simp add: sort_by_mset)
  then show ?thesis by (metis size_mset)
qed








lemma localeCompare_le: "(localeCompare a b \<le> 0) = (a \<le> b)"
  by (auto simp: localeCompare_def)

lemma compareTrades_le:
  assumes "getTime (newDate h (entryDate a)) \<noteq> None" "getTime (newDate h (entryDate b)) \<noteq> None"
  shows "(compareTrades h a b \<le> 0) = (entryKey h a \<le> entryKey h b)"
proof -
  obtain x y where xy: "getTime (newDate h (entryDate a)) = Some x"
    "getTime (newDate h (entryDate b)) = Some y" using assms by auto
  show ?thesis
    using xy localeCompare_le [of "trade_id a" "trade_id b"]
    by (auto simp: compareTrades_def dateDiff_def entryKey_def less_eq_prod_def)
qed

lemma insert_by_insort_key:
  assumes "getTime (newDate h (entryDate x)) \<noteq> None"
    and "\<forall>y\<in>set ys. getTime (newDate h (entryDate y)) \<noteq> None"
  shows "insert_by (compareTrades h) x ys = insort_key (entryKey h) x ys"
  using assms(2)
proof (induction ys)
  case Nil
  then show ?case by simp
next
  case (Cons y ys)
  have "(compareTrades h x y \<le> 0) = (entryKey h x \<le> entryKey h y)"
    using assms(1) Cons.prems by (intro compareTrades_le) simp_all
  then show ?case using Cons by simp
qed

lemma sort_by_sort_key:
  assumes "\<forall>x\<in>set xs. getTime (newDate h (entryDate x)) \<noteq> None"
  shows "sort_by (compareTrades h) xs = sort_key (entryKey h) xs"
  using assms
proof (induction xs)
  case Nil
  then show ?case by (simp add: sort_by_def)
next
  case (Cons x xs)
  have ih: "sort_by (compareTrades h) xs = sort_key (entryKey h) xs" using Cons by simp
  have "\<forall>y\<in>set (sort_key (entryKey h) xs). getTime (newDate h (entryDate y)) \<noteq> None"
    using Cons.prems by simp
  then have "insert_by (compareTrades h) x (sort_key (entryKey h) xs)
      = insort_key (entryKey h) x (sort_key (entryKey h) xs)"
    using Cons.prems by (intro insert_by_insort_key) simp_all
  then show ?case using ih by (simp add: sort_by_def sort_key_def)
qed

lemma closedTrades_sort_key:
  assumes "\<forall>t\<in>set (closedSubset trades). getTime (newDate h (entryDate t)) \<noteq> None"
  shows "closedTrades h trades = sort_key (entryKey h) (closedSubset trades)"
  unfolding closedTrades_def using assms by (rule sort_by_sort_key)

lemma closedSubset_mset:
  "mset trades' = mset trades \<Longrightarrow> mset (closedSubset trades') = mset (closedSubset trades)"
  by (simp add: closedSubset_def)

text \<open>
  When the comparator decides every pair, the sorted list depends on the collection only,
  not on the order it is stored in.
\<close>

lemma closedTrades_perm:
  assumes "mset trades' = mset trades"
    and "\<forall>t\<in>set (closedSubset trades). getTime (newDate h (entryDate t)) \<noteq> None"
    and "inj_on (entryKey h) (set (closedSubset trades))"
  shows "closedTrades h trades' = closedTrades h trades"
proof -
  have m: "mset (closedSubset trades') = mset (closedSubset trades)"
    using assms(1) by (rule closedSubset_mset)
  then have s: "set (closedSubset trades') = set (closedSubset trades)" by (rule mset_eq_setD)
  have v': "\<forall>t\<in>set (closedSubset trades'). getTime (newDate h (entryDate t)) \<noteq> None"
    using assms(2) s by simp
  have "sort_key (entryKey h) (closedSubset trades') = sort_key (entryKey h) (closedSubset trades)"
  proof (rule sort_key_inj_key_eq)
    show "mset (closedSubset trades') = mset (sort_key (entryKey h) (closedSubset trades))"
      using m by simp
    show "inj_on (entryKey h) (set (closedSubset trades'))" using assms(3) s by simp
    show "sorted (map (entryKey h) (sort_key (entryKey h) (closedSubset trades)))" by simp
  qed
  then show ?thesis
    using closedTrades_sort_key [OF assms(2)] closedTrades_sort_key [OF v'] by simp
qed
















lemma isoHost_time_jan:
  "getTime (newDate isoHost ''2024-01-05'') = Some 1704412800000"
  "getTime (newDate isoHost ''2024-01-06'') = Some 1704499200000"
  "getTime (newDate isoHost ''2024-01-07'') = Some 1704585600000"
  "getTime (newDate isoHost ''2024-01-20'') = Some 1705708800000"
  "getTime (newDate isoHost ''2024-01-21'') = Some 1705795200000"
  by (simp_all add: isoHost_def isoNewDate_def isDigit_def digitsValue_def
      monthLength_def isLeapYear_def daysFromCivil_def)

















lemma streakStep_inv:
  assumes "streakStep (w, m, c) t = (w', m', c')"
    and "(c > 0 \<longrightarrow> c = int w) \<and> (c \<le> 0 \<longrightarrow> w = 0)" "w \<le> m"
  shows "((c' > 0 \<longrightarrow> c' = int w') \<and> (c' \<le> 0 \<longrightarrow> w' = 0)) \<and> w' \<le> m'"
  using assms by (auto split: if_splits)

lemma streakFold_inv:
  assumes "foldl streakStep (w, m, c) ts = (w', m', c')"
    and "(c > 0 \<longrightarrow> c = int w) \<and> (c \<le> 0 \<longrightarrow> w = 0)" "w \<le> m"
  shows "((c' > 0 \<longrightarrow> c' = int w') \<and> (c' \<le> 0 \<longrightarrow> w' = 0)) \<and> w' \<le> m'"
  using assms
proof (induction ts arbitrary: w m c)
  case Nil
  then show ?case by simp
next
  case (Cons t ts)
  obtain w1 m1 c1 where s: "streakStep (w, m, c) t = (w1, m1, c1)"
    by (cases "streakStep (w, m, c) t") auto
  have i: "((c1 > 0 \<longrightarrow> c1 = int w1) \<and> (c1 \<le> 0 \<longrightarrow> w1 = 0)) \<and> w1 \<le> m1"
    using s Cons.prems(2,3) by (rule streakStep_inv)
  have "foldl streakStep (w1, m1, c1) ts = (w', m', c')"
    using Cons.prems(1) s by simp
  then show ?case using i Cons.IH by blast
qed

lemma streakScan_bound:
  assumes "streakScan ts = (w, m, c)" "c > 0"
  shows "c \<le> int m"
proof -
  have "((c > 0 \<longrightarrow> c = int w) \<and> (c \<le> 0 \<longrightarrow> w = 0)) \<and> w \<le> m"
    using assms(1) unfolding streakScan_def by (rule streakFold_inv) simp_all
  then show ?thesis using assms(2) by simp
qed

lemma stats_streaks:
  "streakScan (closedTrades h trades) = (w, m, c) \<Longrightarrow>
     maxWinStreak (stats h trades) = m \<and> currentStreak (stats h trades) = c"
  by (simp add: stats_def Let_def)

lemma closedTrades_three:
  assumes "status a = CLOSED" "status b = CLOSED" "status c = CLOSED"
    and "pnl a \<noteq> None" "pnl b \<noteq> None" "pnl c \<noteq> None"
    and "getTime (newDate h (entryDate a)) = Some ta"
    and "getTime (newDate h (entryDate b)) = Some tb"
    and "getTime (newDate h (entryDate c)) = Some tc"
    and "ta < tb" "tb < tc"
    and "mset ts = {#a, b, c#}"
  shows "closedTrades h ts = [a, b, c]"
proof -
  have cs: "closedSubset [a, b, c] = [a, b, c]" using assms(1-6) by (simp add: closedSubset_def)
  have m: "mset ts = mset [a, b, c]" using assms(12) by simp
  have v: "\<forall>t\<in>set (closedSubset [a, b, c]). getTime (newDate h (entryDate t)) \<noteq> None"
    unfolding cs using assms(7-9) by simp
  have i: "inj_on (entryKey h) (set (closedSubset [a, b, c]))"
    unfolding cs using assms(7-11) by (auto simp: inj_on_def entryKey_def)
  have "closedTrades h ts = closedTrades h [a, b, c]" using m v i by (rule closedTrades_perm)
  also have "\<dots> = [a, b, c]"
    using assms(1-11) by (simp add: closedTrades_def closedSubset_def sort_by_def compareTrades_def dateDiff_def)
  finally show ?thesis .
qed

text \<open>
  Claim C5: for every host and trade collection, the streak fields are those of the
  single pass over \<open>closedTrades\<close>, which holds the closed trades with a P&L, each once,
  and, when their entry dates parse, in ascending order of entry time and, at equal
  times, of identifier: it is the stable sort by that pair of keys. After the pass
  \<open>maxWinStreak\<close> is at least \<open>currentStreak\<close> whenever \<open>currentStreak\<close> is positive. And
  three closed trades with the P&L -50, 100 and -30, entered at strictly increasing
  times and stored in any order, are scanned in the order of their times and give
  \<open>currentStreak = -1\<close> and \<open>maxWinStreak = 1\<close>.
\<close>

theorem streak_invariant:
  "(currentStreak (stats h trades) > 0 \<longrightarrow>
      int (maxWinStreak (stats h trades)) \<ge> currentStreak (stats h trades))
   \<and> snd (streakScan (closedTrades h trades))
       = (maxWinStreak (stats h trades), currentStreak (stats h trades))
   \<and> mset (closedTrades h trades) = mset (closedSubset trades)
   \<and> ((\<forall>t\<in>set (closedSubset trades). getTime (newDate h (entryDate t)) \<noteq> None) \<longrightarrow>
        sorted (map (entryKey h) (closedTrades h trades))
        \<and> closedTrades h trades = sort_key (entryKey h) (closedSubset trades))
   \<and> (\<forall>a b c ta tb tc ts.
        status a = CLOSED \<and> status b = CLOSED \<and> status c = CLOSED
        \<and> pnl a = Some (- 50) \<and> pnl b = Some 100 \<and> pnl c = Some (- 30)
        \<and> getTime (newDate h (entryDate a)) = Some ta
        \<and> getTime (newDate h (entryDate b)) = Some tb
        \<and> getTime (newDate h (entryDate c)) = Some tc
        \<and> ta < tb \<and> tb < tc \<and> mset ts = {#a, b, c#} \<longrightarrow>
        closedTrades h ts = [a, b, c]
        \<and> currentStreak (stats h ts) = - 1 \<and> maxWinStreak (stats h ts) = 1)"
proof -
  obtain w m c where s: "streakScan (closedTrades h trades) = (w, m, c)"
    by (cases "streakScan (closedTrades h trades)") auto
  have f: "maxWinStreak (stats h trades) = m \<and> currentStreak (stats h trades) = c"
    using s by (rule stats_streaks)
  have inv: "currentStreak (stats h trades) > 0 \<longrightarrow>
      int (maxWinStreak (stats h trades)) \<ge> currentStreak (stats h trades)"
    using streakScan_bound [OF s] f by simp
  have scan: "snd (streakScan (closedTrades h trades))
       = (maxWinStreak (stats h trades), currentStreak (stats h trades))"
    using s f by simp
  have perm: "mset (closedTrades h trades) = mset (closedSubset trades)"
    by (simp add: closedTrades_def sort_by_mset)
  have srt: "sorted (map (entryKey h) (closedTrades h trades))
        \<and> closedTrades h trades = sort_key (entryKey h) (closedSubset trades)"
    if "\<forall>t\<in>set (closedSubset trades). getTime (newDate h (entryDate t)) \<noteq> None"
    using closedTrades_sort_key [OF that] by simp
  have scen: "closedTrades h ts = [a, b, c]
        \<and> currentStreak (stats h ts) = - 1 \<and> maxWinStreak (stats h ts) = 1"
    if "status a = CLOSED \<and> status b = CLOSED \<and> status c = CLOSED
        \<and> pnl a = Some (- 50) \<and> pnl b = Some 100 \<and> pnl c = Some (- 30)
        \<and> getTime (newDate h (entryDate a)) = Some ta
        \<and> getTime (newDate h (entryDate b)) = Some tb
        \<and> getTime (newDate h (entryDate c)) = Some tc
        \<and> ta < tb \<and> tb < tc \<and> mset ts = {#a, b, c#}" for a b c ta tb tc ts
  proof -
    have o: "closedTrades h ts = [a, b, c]"
      using that by (intro closedTrades_three [of a b c h ta tb tc]) simp_all
    have "streakScan [a, b, c] = (0, 1, - 1)"
      using that by (simp add: streakScan_def pnlOr0_def)
    then show ?thesis using o stats_streaks [of h ts 0 1 "- 1"] by simp
  qed
  show ?thesis using inv scan perm srt scen by blast
qed

theorem streak_invariant_witness:
  "closedTrades isoHost
      [closedTrade ''b'' ''2024-01-06'' (Some 100), closedTrade ''a'' ''2024-01-05'' (Some (- 50)),
       closedTrade ''c'' ''2024-01-07'' (Some (- 30))]
     = [closedTrade ''a'' ''2024-01-05'' (Some (- 50)), closedTrade ''b'' ''2024-01-06'' (Some 100),
        closedTrade ''c'' ''2024-01-07'' (Some (- 30))]
   \<and> currentStreak (stats isoHost
      [closedTrade ''b'' ''2024-01-06'' (Some 100), closedTrade ''a'' ''2024-01-05'' (Some (- 50)),
       closedTrade ''c'' ''2024-01-07'' (Some (- 30))]) = - 1
   \<and> maxWinStreak (stats isoHost
      [closedTrade ''b'' ''2024-01-06'' (Some 100), closedTrade ''a'' ''2024-01-05'' (Some (- 50)),
       closedTrade ''c'' ''2024-01-07'' (Some (- 30))]) = 1
   \<and> currentStreak (stats isoHost
      [closedTrade ''z'' ''2024-01-07'' (Some 80), closedTrade ''x'' ''2024-01-05'' (Some (- 50)),
       closedTrade ''y'' ''2024-01-06'' (Some 100)]) = 2
   \<and> 0 < currentStreak (stats isoHost
      [closedTrade ''z'' ''2024-01-07'' (Some 80), closedTrade ''x'' ''2024-01-05'' (Some (- 50)),
       closedTrade ''y'' ''2024-01-06'' (Some 100)])
   \<and> currentStreak (stats isoHost
      [closedTrade ''z'' ''2024-01-07'' (Some 80), closedTrade ''x'' ''2024-01-05'' (Some (- 50)),
       closedTrade ''y'' ''2024-01-06'' (Some 100)])
       \<le> int (maxWinStreak (stats isoHost
      [closedTrade ''z'' ''2024-01-07'' (Some 80), closedTrade ''x'' ''2024-01-05'' (Some (- 50)),
       closedTrade ''y'' ''2024-01-06'' (Some 100)]))
   \<and> sorted (map (entryKey isoHost) (closedTrades isoHost
      [closedTrade ''z'' ''2024-01-07'' (Some 80), closedTrade ''x'' ''2024-01-05'' (Some (- 50)),
       closedTrade ''y'' ''2024-01-06'' (Some 100)]))"
proof -
  let ?a = "closedTrade ''a'' ''2024-01-05'' (Some (- 50))"
  let ?b = "closedTrade ''b'' ''2024-01-06'' (Some 100)"
  let ?c = "closedTrade ''c'' ''2024-01-07'' (Some (- 30))"
  let ?us = "[closedTrade ''z'' ''2024-01-07'' (Some 80), closedTrade ''x'' ''2024-01-05'' (Some (- 50)),
       closedTrade ''y'' ''2024-01-06'' (Some 100)]"
  have ta: "getTime (newDate isoHost (entryDate ?a)) = Some 1704412800000"
    by (simp add: closedTrade_def isoHost_time_jan)
  have tb: "getTime (newDate isoHost (entryDate ?b)) = Some 1704499200000"
    by (simp add: closedTrade_def isoHost_time_jan)
  have tc: "getTime (newDate isoHost (entryDate ?c)) = Some 1704585600000"
    by (simp add: closedTrade_def isoHost_time_jan)
  have st: "status ?a = CLOSED \<and> status ?b = CLOSED \<and> status ?c = CLOSED
        \<and> pnl ?a = Some (- 50) \<and> pnl ?b = Some 100 \<and> pnl ?c = Some (- 30)"
    by (simp add: closedTrade_def)
  have m: "mset [?b, ?a, ?c] = {#?a, ?b, ?c#}" by simp
  have scen: "closedTrades isoHost [?b, ?a, ?c] = [?a, ?b, ?c]
      \<and> currentStreak (stats isoHost [?b, ?a, ?c]) = - 1
      \<and> maxWinStreak (stats isoHost [?b, ?a, ?c]) = 1"
  proof (rule streak_invariant [of isoHost "[?b]", THEN conjunct2, THEN conjunct2, THEN conjunct2,
        THEN conjunct2, rule_format,
        of ?a ?b ?c 1704412800000 1704499200000 1704585600000 "[?b, ?a, ?c]"])
    show "status ?a = CLOSED \<and> status ?b = CLOSED \<and> status ?c = CLOSED
        \<and> pnl ?a = Some (- 50) \<and> pnl ?b = Some 100 \<and> pnl ?c = Some (- 30)
        \<and> getTime (newDate isoHost (entryDate ?a)) = Some 1704412800000
        \<and> getTime (newDate isoHost (entryDate ?b)) = Some 1704499200000
        \<and> getTime (newDate isoHost (entryDate ?c)) = Some 1704585600000
        \<and> (1704412800000::int) < 1704499200000 \<and> (1704499200000::int) < 1704585600000
        \<and> mset [?b, ?a, ?c] = {#?a, ?b, ?c#}"
      using st ta tb tc m by (intro conjI) simp_all
  qed
  have v: "\<forall>t\<in>set (closedSubset ?us). getTime (newDate isoHost (entryDate t)) \<noteq> None"
    by (simp add: closedSubset_def closedTrade_def isoHost_time_jan)
  have srt: "sorted (map (entryKey isoHost) (closedTrades isoHost ?us))"
    by (rule streak_invariant [of isoHost ?us, THEN conjunct2, THEN conjunct2, THEN conjunct2,
        THEN conjunct1, THEN mp, OF v, THEN conjunct1])
  have two: "currentStreak (stats isoHost ?us) = 2"
    by (simp add: stats_def closedTrades_def closedSubset_def sort_by_def closedTrade_def
        streakScan_def pnlOr0_def Let_def compareTrades_def dateDiff_def isoHost_time_jan)
  have pos: "0 < currentStreak (stats isoHost ?us)" using two by simp
  have le: "currentStreak (stats isoHost ?us) \<le> int (maxWinStreak (stats isoHost ?us))"
    by (rule streak_invariant [of isoHost ?us, THEN conjunct1, THEN mp, OF pos])
  show ?thesis using scen srt two pos le by (intro conjI) simp_all
qed

section \<open>AI coach adapter and trade store client: proofs\<close>

text \<open>
  Claim C8: for every trade and every behaviour of the model call, the promise of
  \<open>analyzeTradeWithAI\<close> is resolved, never rejected, and its value is a non-empty string:
  the response's text when the call succeeds with a non-empty text, the fixed message
  \<^verbatim>\<open>Could not generate analysis.\<close> when it succeeds with an empty or missing text, and
  the fixed message \<^verbatim>\<open>Error connecting to AI Coach. ...\<close> when anything in the
  \<^verbatim>\<open>try\<close> block throws.
\<close>

theorem analyzeTradeWithAI_resolves:
  "analyzeTradeWithAI generateContent trade \<noteq> Rejected
   \<and> (\<exists>s. analyzeTradeWithAI generateContent trade = Resolved s \<and> s \<noteq> []
        \<and> (generateContent trade = Response (Some s)
           \<or> (generateContent trade = Response None \<or> generateContent trade = Response (Some []))
              \<and> s = ''Could not generate analysis.''
           \<or> generateContent trade = Throws
              \<and> s = ''Error connecting to AI Coach. Please check your API key or try again later.''))"
  by (auto simp: analyzeTradeWithAI_def split: genResult.splits option.splits)

theorem analyzeTradeWithAI_resolves_witness:
  "analyzeTradeWithAI (\<lambda>t. Response (Some ''Cut losers early.'')) (closedTrade ''a'' ''2024-01-05'' (Some 100))
     = Resolved ''Cut losers early.''
   \<and> analyzeTradeWithAI (\<lambda>t. Response (Some [])) (closedTrade ''a'' ''2024-01-05'' (Some 100))
     = Resolved ''Could not generate analysis.''
   \<and> analyzeTradeWithAI (\<lambda>t. Throws) (closedTrade ''a'' ''2024-01-05'' (Some 100))
     = Resolved ''Error connecting to AI Coach. Please check your API key or try again later.''"
  using analyzeTradeWithAI_resolves [of "\<lambda>t. Response (Some ''Cut losers early.'')" "closedTrade ''a'' ''2024-01-05'' (Some 100)"]
    analyzeTradeWithAI_resolves [of "\<lambda>t. Response (Some [])" "closedTrade ''a'' ''2024-01-05'' (Some 100)"]
    analyzeTradeWithAI_resolves [of "\<lambda>t. Throws" "closedTrade ''a'' ''2024-01-05'' (Some 100)"]
  by auto

text \<open>
  The two mappings agree on a row exactly when its stored P&L is not 0.
\<close>

lemma mapRow_agree_iff:
  "mapRow_first t = mapRow_second t \<longleftrightarrow> r_pnl t \<noteq> Some 0"
  by (auto simp: mapRow_first_def mapRow_second_def ifTruthy_def ifNotNull_def split: option.splits)

text \<open>
  Claim C10 does not hold of the code: on the row of a closed trade whose stored P&L is
  0 the first definition of \<^verbatim>\<open>fetchTrades\<close> keeps the P&L 0 (\<^verbatim>\<open>t.pnl !== null\<close>) and the
  second makes it \<^verbatim>\<open>undefined\<close> (\<^verbatim>\<open>t.pnl ? ... : undefined\<close>), so the two records
  differ, and the statistics count the trade after the first and drop it after the
  second.
\<close>

theorem mapRow_pnl_zero_differs:
  "pnl (mapRow_first breakevenRow) = Some 0
   \<and> pnl (mapRow_second breakevenRow) = None
   \<and> mapRow_first breakevenRow \<noteq> mapRow_second breakevenRow
   \<and> fetchTrades_first (Inr [breakevenRow]) \<noteq> fetchTrades_second (Inr [breakevenRow])
   \<and> totalTrades (stats isoHost (map mapRow_first [breakevenRow])) = 1
   \<and> totalTrades (stats isoHost (map mapRow_second [breakevenRow])) = 0"
  by (simp add: mapRow_first_def mapRow_second_def breakevenRow_def ifTruthy_def ifNotNull_def
      fetchTrades_first_def fetchTrades_second_def stats_def closedTrades_def closedSubset_def
      sort_by_def Let_def streakScan_def)

section \<open>Decimal strings: proofs\<close>

lemma char_of_48: "char_of (48::nat) = CHR ''0''"
  by code_simp

lemma digitChar_zero: "digitChar 0 = CHR ''0''"
  by (simp add: digitChar_def char_of_48)

lemma digitChar_inj:
  assumes "a < 10" "b < 10" "digitChar a = digitChar b"
  shows "a = b"
proof -
  have "of_char (digitChar a) = (48 + a :: nat)" "of_char (digitChar b) = (48 + b :: nat)"
    using assms(1,2) by (simp_all add: digitChar_def)
  moreover have "(of_char (digitChar a) :: nat) = of_char (digitChar b)"
    using assms(3) by (rule arg_cong)
  ultimately have "48 + a = 48 + b" by (simp only:)
  then show ?thesis by (simp only: add_left_cancel)
qed

lemma String_nat_digit: "n < 10 \<Longrightarrow> String_nat n = [digitChar n]"
  by (subst String_nat.simps) simp

lemma pad2_digits:
  assumes "n < 100"
  shows "padStart2 (String_nat n) = [digitChar (n div 10), digitChar (n mod 10)]"
proof (cases "n < 10")
  case True
  then show ?thesis by (simp add: String_nat_digit padStart2_def digitChar_zero)
next
  case False
  then have "n div 10 < 10" using assms by simp
  then have "String_nat n = [digitChar (n div 10), digitChar (n mod 10)]"
    using False by (subst String_nat.simps) (simp add: String_nat_digit)
  then show ?thesis by (simp add: padStart2_def)
qed

lemma pad2_inj:
  assumes "i < 100" "j < 100" "padStart2 (String_nat i) = padStart2 (String_nat j)"
  shows "i = j"
proof -
  have d: "digitChar (i div 10) = digitChar (j div 10)" "digitChar (i mod 10) = digitChar (j mod 10)"
    using assms by (simp_all add: pad2_digits)
  have "i div 10 = j div 10"
    using d(1) assms(1,2) by (intro digitChar_inj) simp_all
  moreover have "i mod 10 = j mod 10"
    using d(2) by (intro digitChar_inj) simp_all
  ultimately show ?thesis by (metis div_mult_mod_eq)
qed

lemma digitChar_less:
  assumes "a < 10" "b < 10"
  shows "(digitChar a < digitChar b) = (a < b)"
proof -
  have "of_char (digitChar a) = (48 + a :: nat)" "of_char (digitChar b) = (48 + b :: nat)"
    using assms by (simp_all add: digitChar_def)
  then show ?thesis by (simp only: less_char_def nat_add_left_cancel_less)
qed

lemma less_append_same_length:
  fixes xs ys :: "'a::linorder list"
  assumes "length xs = length ys" "xs < ys"
  shows "xs @ u < ys @ v"
  using assms by (induction xs ys rule: list_induct2) auto

lemma less_append_prefix:
  fixes u v :: "'a::linorder list"
  shows "(xs @ u < xs @ v) = (u < v)"
  by (induction xs) auto

lemma String_nat_step: "10 \<le> n \<Longrightarrow> String_nat n = String_nat (n div 10) @ [digitChar (n mod 10)]"
  by (subst String_nat.simps) simp

lemma String_nat_nonempty: "String_nat n \<noteq> []"
  by (subst String_nat.simps) simp

lemma String_nat_length_one: "(length (String_nat n) = 1) = (n < 10)"
proof (cases "n < 10")
  case True
  then show ?thesis by (simp add: String_nat_digit)
next
  case False
  then have "length (String_nat n) = length (String_nat (n div 10)) + 1"
    by (simp add: String_nat_step)
  moreover have "0 < length (String_nat (n div 10))" using String_nat_nonempty by blast
  ultimately show ?thesis using False by simp
qed

lemma String_nat_mono:
  "length (String_nat a) = length (String_nat b) \<Longrightarrow> a < b \<Longrightarrow> String_nat a < String_nat b"
proof (induction a arbitrary: b rule: String_nat.induct)
  case (1 n)
  show ?case
  proof (cases "n < 10")
    case True
    then have "length (String_nat b) = 1" using "1.prems"(1) by (simp add: String_nat_digit)
    then have "b < 10" by (simp only: String_nat_length_one)
    then show ?thesis using True "1.prems"(2) by (simp add: String_nat_digit digitChar_less)
  next
    case False
    then have n: "10 \<le> n" by simp
    then have b: "10 \<le> b" using "1.prems"(2) by simp
    have len: "length (String_nat (n div 10)) = length (String_nat (b div 10))"
      using "1.prems"(1) n b by (simp add: String_nat_step)
    consider "n div 10 < b div 10" | "n div 10 = b div 10" "n mod 10 < b mod 10"
      using "1.prems"(2) by (metis div_le_mono less_imp_le_nat mod_less_divisor
          mult_div_mod_eq nat_add_left_cancel_less nat_neq_iff order_le_less zero_less_numeral)
    then show ?thesis
    proof cases
      case 1
      have "String_nat (n div 10) < String_nat (b div 10)"
        using False len 1 by (rule "1.IH")
      then show ?thesis
        using len by (simp add: String_nat_step [OF n] String_nat_step [OF b] less_append_same_length)
    next
      case 2
      then show ?thesis
        by (simp add: String_nat_step [OF n] String_nat_step [OF b] less_append_prefix digitChar_less)
    qed
  qed
qed

lemma String_nat_length_4:
  assumes "1000 \<le> n" "n \<le> 9999"
  shows "length (String_nat n) = 4"
proof -
  have a: "10 \<le> n" "10 \<le> n div 10" "10 \<le> n div 10 div 10" "n div 10 div 10 div 10 < 10"
    using assms by simp_all
  show ?thesis
    by (simp add: String_nat_step [OF a(1)] String_nat_step [OF a(2)] String_nat_step [OF a(3)]
        String_nat_digit [OF a(4)])
qed

lemma teen_div_mod:
  fixes n :: nat
  assumes "10 \<le> n" "n < 20"
  shows "n div 10 = 1" "n mod 10 = n - 10"
  using assms by (simp_all add: le_div_geq le_mod_geq)

lemma month_digits_less:
  fixes m m' :: nat
  assumes "m < m'" "m' < 12"
  shows "(m + 1) div 10 < (m' + 1) div 10
        \<or> (m + 1) div 10 = (m' + 1) div 10 \<and> (m + 1) mod 10 < (m' + 1) mod 10"
proof (cases "m' + 1 < 10")
  case True
  then show ?thesis using assms by simp
next
  case False
  then have b: "10 \<le> m' + 1" "m' + 1 < 20" using assms by simp_all
  show ?thesis
  proof (cases "m + 1 < 10")
    case True
    then show ?thesis using teen_div_mod [OF b] by simp
  next
    case False
    then have a: "10 \<le> m + 1" "m + 1 < 20" using assms by simp_all
    show ?thesis using teen_div_mod [OF a] teen_div_mod [OF b] assms by simp
  qed
qed


section \<open>Calendar aggregator: proofs\<close>

lemma daysInMonth_le: "daysInMonth year month \<le> 31"
  by (simp add: daysInMonth_def monthLength_def)

lemma daysInMonth_pos: "1 \<le> daysInMonth year month"
  by (simp add: daysInMonth_def monthLength_def)

lemma prefix_same_length:
  assumes "prefix (p @ a) s" "prefix (p @ b) s" "length a = length b"
  shows "a = b"
proof -
  obtain u where u: "s = p @ a @ u" using assms(1) by (auto simp: prefix_def)
  obtain v where v: "s = p @ b @ v" using assms(2) by (auto simp: prefix_def)
  have "a @ u = b @ v" using u v by simp
  then show ?thesis using assms(3) by simp
qed

lemma dateStr_one_day:
  assumes "i \<le> daysInMonth year month" "j \<le> daysInMonth year month"
    and "prefix (dateStrOf year month i) s" "prefix (dateStrOf year month j) s"
  shows "i = j"
proof -
  have b: "i < 100" "j < 100"
    using assms(1,2) daysInMonth_le [of year month] by simp_all
  let ?p = "String_int year @ ''-'' @ padStart2 (String_nat (month + 1)) @ ''-''"
  have "prefix (?p @ padStart2 (String_nat i)) s" "prefix (?p @ padStart2 (String_nat j)) s"
    using assms(3,4) by (simp_all add: dateStrOf_def)
  moreover have "length (padStart2 (String_nat i)) = length (padStart2 (String_nat j))"
    using b by (simp add: pad2_digits)
  ultimately have "padStart2 (String_nat i) = padStart2 (String_nat j)"
    by (rule prefix_same_length)
  then show ?thesis using b by (intro pad2_inj)
qed

lemma days_length:
  "length (days (calendarData h trades dailyNotes year month))
     = firstDayOfWeek year month + daysInMonth year month"
  by (simp add: calendarData_def)

lemma days_nth:
  assumes "1 \<le> i" "i \<le> daysInMonth year month"
  shows "days (calendarData h trades dailyNotes year month) ! (firstDayOfWeek year month + i - 1)
           = Some (dayCell trades dailyNotes year month i)"
proof -
  let ?k = "firstDayOfWeek year month"
  have idx: "?k + i - 1 = ?k + (i - 1)" using assms(1) by simp
  have lt: "i - 1 < length [1 ..< daysInMonth year month + 1]" using assms by simp
  have "[1 ..< daysInMonth year month + 1] ! (i - 1) = i"
    using assms nth_upt [of 1 "i - 1" "daysInMonth year month + 1"] by simp
  then show ?thesis
    unfolding idx using lt by (simp add: calendarData_def nth_append)
qed

lemma dayTrades_filter:
  "dayTrades trades ds = filter (\<lambda>t. status t = CLOSED \<and> prefix ds (entryDate t)) trades"
  unfolding dayTrades_def startsWith_def by (rule filter_cong) auto

lemma find_None_iff': "(find P xs \<noteq> None) = (\<exists>x\<in>set xs. P x)"
  by (induction xs) auto

lemma dayCell_fields:
  "day (dayCell trades dailyNotes year month i) = i"
  "dateStr (dayCell trades dailyNotes year month i) = dateStrOf year month i"
  "day_pnl (dayCell trades dailyNotes year month i)
     = sum_list (map pnlOr0 (dayTrades trades (dateStrOf year month i)))"
  "hasTrades (dayCell trades dailyNotes year month i)
     = (\<exists>t\<in>set trades. status t = CLOSED \<and> prefix (dateStrOf year month i) (entryDate t))"
  "hasNote (dayCell trades dailyNotes year month i)
     = (\<exists>n\<in>set dailyNotes. note_date n = dateStrOf year month i)"
proof -
  show "day (dayCell trades dailyNotes year month i) = i"
    by (simp add: dayCell_def Let_def)
  show "dateStr (dayCell trades dailyNotes year month i) = dateStrOf year month i"
    by (simp add: dayCell_def Let_def)
  show "day_pnl (dayCell trades dailyNotes year month i)
     = sum_list (map pnlOr0 (dayTrades trades (dateStrOf year month i)))"
    by (simp add: dayCell_def Let_def foldl_add)
  have "(dayTrades trades (dateStrOf year month i) \<noteq> [])
     = (\<exists>t\<in>set trades. status t = CLOSED \<and> prefix (dateStrOf year month i) (entryDate t))"
    unfolding dayTrades_filter by (auto simp: filter_empty_conv)
  then show "hasTrades (dayCell trades dailyNotes year month i)
     = (\<exists>t\<in>set trades. status t = CLOSED \<and> prefix (dateStrOf year month i) (entryDate t))"
    by (simp add: dayCell_def Let_def)
  have "hasNote (dayCell trades dailyNotes year month i)
     = (find (\<lambda>n. note_date n = dateStrOf year month i) dailyNotes \<noteq> None)"
    by (simp add: dayCell_def Let_def)
  then show "hasNote (dayCell trades dailyNotes year month i)
     = (\<exists>n\<in>set dailyNotes. note_date n = dateStrOf year month i)"
    by (simp only: find_None_iff')
qed



lemma feb2024:
  "firstDayOfWeek 2024 1 = 4" "daysInMonth 2024 1 = 29"
  "dateStrOf 2024 1 5 = ''2024-02-05''" "dateStrOf 2024 1 6 = ''2024-02-06''"
  "firstDayOfWeek 2024 (Suc 0) = 4" "daysInMonth 2024 (Suc 0) = 29"
  "dateStrOf 2024 (Suc 0) 5 = ''2024-02-05''" "dateStrOf 2024 (Suc 0) 6 = ''2024-02-06''"
  by code_simp+

lemma febTrades_keys:
  "map (keyOf isoHost) febTrades = [''2024-02'', ''2024-02'', ''2024-02'']"
  by code_simp


text \<open>
  What the calendar does for every host, trade collection, note collection and target
  year and month: it has one cell for each day \<open>i\<close> of the month after the padding. The
  trades of the cell are the trades that are closed and whose entry timestamp string has
  the day's string \<open>dateStr\<close> as a prefix; its P&L is the sum of their P&L (an absent P&L
  counting 0); \<open>hasTrades\<close> holds exactly when there is such a trade, and the P&L is 0 when
  there is none; \<open>hasNote\<close> holds exactly when a note's date equals the day's string. No
  entry timestamp has the strings of two days of the month as prefixes, so a trade is in
  the bucket of one day at most. For a target year of four digits the day's string has
  the form \<^verbatim>\<open>YYYY-MM-DD\<close>, month and day padded with a zero to two digits, and only
  for such a year.
\<close>

lemma calendar_day_buckets:
  "length (days (calendarData h trades dailyNotes year month))
     = firstDayOfWeek year month + daysInMonth year month
   \<and> (\<forall>i. 1 \<le> i \<and> i \<le> daysInMonth year month \<longrightarrow>
        (\<exists>c. days (calendarData h trades dailyNotes year month) ! (firstDayOfWeek year month + i - 1)
               = Some c
           \<and> day c = i \<and> dateStr c = dateStrOf year month i
           \<and> dayTrades trades (dateStr c)
               = filter (\<lambda>t. status t = CLOSED \<and> prefix (dateStr c) (entryDate t)) trades
           \<and> day_pnl c = (\<Sum>t\<leftarrow>dayTrades trades (dateStr c). pnlOr0 t)
           \<and> hasTrades c = (dayTrades trades (dateStr c) \<noteq> [])
           \<and> (\<not> hasTrades c \<longrightarrow> day_pnl c = 0)
           \<and> hasNote c = (\<exists>n\<in>set dailyNotes. note_date n = dateStr c)))
   \<and> (\<forall>i j t. i \<le> daysInMonth year month \<and> j \<le> daysInMonth year month
        \<and> prefix (dateStrOf year month i) (entryDate t)
        \<and> prefix (dateStrOf year month j) (entryDate t) \<longrightarrow> i = j)
   \<and> (\<forall>i. 1000 \<le> year \<and> year \<le> 9999 \<and> month < 12 \<and> i \<le> daysInMonth year month \<longrightarrow>
        length (String_nat (nat year)) = 4
        \<and> dateStrOf year month i
            = String_nat (nat year) @ ''-''
              @ [digitChar ((month + 1) div 10), digitChar ((month + 1) mod 10)] @ ''-''
              @ [digitChar (i div 10), digitChar (i mod 10)])"
proof -
  have cell: "\<exists>c. days (calendarData h trades dailyNotes year month) ! (firstDayOfWeek year month + i - 1)
               = Some c
           \<and> day c = i \<and> dateStr c = dateStrOf year month i
           \<and> dayTrades trades (dateStr c)
               = filter (\<lambda>t. status t = CLOSED \<and> prefix (dateStr c) (entryDate t)) trades
           \<and> day_pnl c = (\<Sum>t\<leftarrow>dayTrades trades (dateStr c). pnlOr0 t)
           \<and> hasTrades c = (dayTrades trades (dateStr c) \<noteq> [])
           \<and> (\<not> hasTrades c \<longrightarrow> day_pnl c = 0)
           \<and> hasNote c = (\<exists>n\<in>set dailyNotes. note_date n = dateStr c)"
    if "1 \<le> i \<and> i \<le> daysInMonth year month" for i
  proof -
    let ?c = "dayCell trades dailyNotes year month i"
    have n: "days (calendarData h trades dailyNotes year month) ! (firstDayOfWeek year month + i - 1)
               = Some ?c"
      using that by (intro days_nth) simp_all
    have ht: "hasTrades ?c = (dayTrades trades (dateStr ?c) \<noteq> [])"
      by (simp add: dayCell_def Let_def)
    have z: "\<not> hasTrades ?c \<longrightarrow> day_pnl ?c = 0"
      using ht by (simp add: dayCell_fields(2,3))
    have f: "dayTrades trades (dateStr ?c)
               = filter (\<lambda>t. status t = CLOSED \<and> prefix (dateStr ?c) (entryDate t)) trades"
      by (rule dayTrades_filter)
    have p: "day_pnl ?c = (\<Sum>t\<leftarrow>dayTrades trades (dateStr ?c). pnlOr0 t)"
      by (simp add: dayCell_fields(2,3))
    have hn: "hasNote ?c = (\<exists>n\<in>set dailyNotes. note_date n = dateStr ?c)"
      by (simp add: dayCell_fields(2,5))
    have d: "day ?c = i \<and> dateStr ?c = dateStrOf year month i"
      by (simp add: dayCell_fields(1,2))
    show ?thesis
      by (rule exI [of _ ?c]) (intro conjI n ht z f p hn conjunct1 [OF d] conjunct2 [OF d])
  qed
  have one: "i = j"
    if "i \<le> daysInMonth year month \<and> j \<le> daysInMonth year month
        \<and> prefix (dateStrOf year month i) (entryDate t)
        \<and> prefix (dateStrOf year month j) (entryDate t)" for i j t
    using that dateStr_one_day [of i year month j "entryDate t"] by blast
  have form: "length (String_nat (nat year)) = 4
        \<and> dateStrOf year month i
            = String_nat (nat year) @ ''-''
              @ [digitChar ((month + 1) div 10), digitChar ((month + 1) mod 10)] @ ''-''
              @ [digitChar (i div 10), digitChar (i mod 10)]"
    if "1000 \<le> year \<and> year \<le> 9999 \<and> month < 12 \<and> i \<le> daysInMonth year month" for i
  proof -
    have "i < 100" using that daysInMonth_le [of year month] by simp
    moreover have "month + 1 < 100" using that by simp
    moreover have "1000 \<le> nat year" "nat year \<le> 9999" using that by linarith+
    then have "length (String_nat (nat year)) = 4" by (rule String_nat_length_4)
    ultimately show ?thesis using that by (simp add: dateStrOf_def String_int_def pad2_digits)
  qed
  show ?thesis
    by (intro conjI allI impI days_length) (erule cell, erule one, (rule form [THEN conjunct1], assumption), (rule form [THEN conjunct2], assumption))
qed

lemma calendar_day_buckets_example:
  "\<exists>c. days (calendarData isoHost febTrades febNotes 2024 1) ! 8 = Some c
      \<and> day c = 5 \<and> dateStr c = ''2024-02-05'' \<and> day_pnl c = 60 \<and> hasTrades c \<and> hasNote c"
proof -
  have r: "1 \<le> (5::nat) \<and> 5 \<le> daysInMonth 2024 1" by (simp add: feb2024)
  obtain c where c: "days (calendarData isoHost febTrades febNotes 2024 1) ! (firstDayOfWeek 2024 1 + 5 - 1) = Some c"
    "day c = 5" "dateStr c = dateStrOf 2024 1 5"
    "day_pnl c = (\<Sum>t\<leftarrow>dayTrades febTrades (dateStr c). pnlOr0 t)"
    "hasTrades c = (dayTrades febTrades (dateStr c) \<noteq> [])"
    "hasNote c = (\<exists>n\<in>set febNotes. note_date n = dateStr c)"
    using calendar_day_buckets [of isoHost febTrades febNotes 2024 1] r by blast
  have "dayTrades febTrades ''2024-02-05''
      = [closedTrade ''a'' ''2024-02-05'' (Some 100), closedTrade ''b'' ''2024-02-05'' (Some (- 40))]"
    by (simp add: dayTrades_def febTrades_def closedTrade_def startsWith_def)
  then have "day_pnl c = 60" "hasTrades c"
    using c(3,4,5) by (simp_all add: feb2024 closedTrade_def pnlOr0_def)
  moreover have "hasNote c" using c(3,6) by (simp add: feb2024 febNotes_def)
  moreover have "days (calendarData isoHost febTrades febNotes 2024 1) ! 8 = Some c"
    using c(1) by (simp add: feb2024)
  ultimately show ?thesis using c(2,3) by (simp add: feb2024)
qed


text \<open>
  Claim C2 says that every closed trade appears in the day bucket whose zero-padded
  \<^verbatim>\<open>YYYY-MM-DD\<close> string is a prefix of its entry timestamp, for every target year and
  month. The code pads the month and the day of the day's string and prints the year as
  it is, so for the target June 999 the strings are \<^verbatim>\<open>999-06-01\<close>, \<^verbatim>\<open>999-06-02\<close> and so
  on: a closed trade entered on 0999-06-01, a date of that month on the host of the
  examples, has none of them as a prefix, and neither it nor a note of that date is in
  any of the 30 cells of the month.
\<close>

theorem calendar_day_unpadded_year:
  "dateStrOf 999 5 1 = ''999-06-01''
   \<and> getFullYear (newDate isoHost ''0999-06-01'') = Some 999
   \<and> getMonth (newDate isoHost ''0999-06-01'') = Some 5
   \<and> \<not> startsWith ''0999-06-01'' (dateStrOf 999 5 1)
   \<and> length (days (calendarData isoHost [closedTrade ''a'' ''0999-06-01'' (Some 100)]
         [\<lparr>note_date = ''0999-06-01'', content = ''A note.'', mood = None\<rparr>] 999 5)) = 6 + 30
   \<and> filter (\<lambda>c. case c of None \<Rightarrow> False | Some d \<Rightarrow> hasTrades d \<or> hasNote d \<or> day_pnl d \<noteq> 0)
        (days (calendarData isoHost [closedTrade ''a'' ''0999-06-01'' (Some 100)]
           [\<lparr>note_date = ''0999-06-01'', content = ''A note.'', mood = None\<rparr>] 999 5)) = []
   \<and> map (\<lambda>c. case c of None \<Rightarrow> [] | Some d \<Rightarrow> dateStr d)
        (take 2 (drop 6 (days (calendarData isoHost [closedTrade ''a'' ''0999-06-01'' (Some 100)]
           [\<lparr>note_date = ''0999-06-01'', content = ''A note.'', mood = None\<rparr>] 999 5))))
       = [''999-06-01'', ''999-06-02'']"
  by code_simp

section \<open>Closed trades without a P&L: proofs\<close>

lemma closedSubset_removeAll:
  assumes "pnl t = None"
  shows "closedSubset (removeAll t trades) = closedSubset trades"
  using assms by (induction trades) (auto simp: closedSubset_def)

lemma stats_closedTrades_cong:
  "closedTrades h ts = closedTrades h ts' \<Longrightarrow> stats h ts = stats h ts'"
  by (simp add: stats_def)

lemma equityPoints_length: "length (equityPoints h b ts) = length ts"
  by (induction ts arbitrary: b) simp_all

lemma equityPoints_nth:
  assumes "i < length ts"
  shows "point_pnl (equityPoints h b ts ! i) = pnl (ts ! i)
       \<and> equity (equityPoints h b ts ! i)
           = (if i = 0 then b else equity (equityPoints h b ts ! (i - 1))) + pnlOr0 (ts ! i)"
  using assms
proof (induction ts arbitrary: b i)
  case Nil
  then show ?case by simp
next
  case (Cons t ts)
  show ?case
  proof (cases i)
    case 0
    then show ?thesis by simp
  next
    case (Suc j)
    then have j: "j < length ts" using Cons.prems by simp
    show ?thesis
    proof (cases j)
      case 0
      then show ?thesis using Suc Cons.IH [OF j, of "b + pnlOr0 t"] by simp
    next
      case (Suc k)
      then show ?thesis using \<open>i = Suc j\<close> Cons.IH [OF j, of "b + pnlOr0 t"] by simp
    qed
  qed
qed

lemma map_of_dictAdd:
  "map_of (dictAdd d k v) k'
     = (if k' = k then Some ((case map_of d k of None \<Rightarrow> 0 | Some x \<Rightarrow> x) + v) else map_of d k')"
  by (induction d k v rule: dictAdd.induct) auto

lemma keys_dictAdd: "fst ` set (dictAdd d k v) = insert k (fst ` set d)"
  by (induction d k v rule: dictAdd.induct) auto

lemma distinct_dictAdd: "distinct (map fst d) \<Longrightarrow> distinct (map fst (dictAdd d k v))"
proof (induction d k v rule: dictAdd.induct)
  case (1 k v)
  then show ?case by simp
next
  case (2 k' x d k v)
  then show ?case using keys_dictAdd [of d k v] by (auto simp: image_iff)
qed

lemma filter_key_absent: "k \<notin> g ` set ts \<Longrightarrow> filter (\<lambda>t. g t = k) ts = []"
  by (auto simp: filter_empty_conv)

lemma map_of_fold:
  "map_of (foldl (\<lambda>d t. dictAdd d (g t) (f t)) d ts) k
     = (if k \<in> g ` set ts
        then Some ((case map_of d k of None \<Rightarrow> 0 | Some x \<Rightarrow> x) + sum_list (map f (filter (\<lambda>t. g t = k) ts)))
        else map_of d k)"
proof (induction ts arbitrary: d)
  case Nil
  then show ?case by simp
next
  case (Cons t ts)
  show ?case
    unfolding foldl_Cons Cons.IH
    by (auto simp: map_of_dictAdd filter_key_absent split: option.splits)
qed

lemma distinct_fold:
  "distinct (map fst d) \<Longrightarrow> distinct (map fst (foldl (\<lambda>d t. dictAdd d (g t) (f t)) d ts))"
  by (induction ts arbitrary: d) (simp_all add: distinct_dictAdd)

lemma keys_fold:
  "fst ` set (foldl (\<lambda>d t. dictAdd d (g t) (f t)) d ts) = fst ` set d \<union> g ` set ts"
  by (induction ts arbitrary: d) (auto simp: keys_dictAdd)

lemma monthlyData_map_of:
  "map_of (monthlyData h trades) k
     = (if \<exists>t\<in>set trades. status t = CLOSED \<and> keyOf h t = k
        then Some (sum_list (map pnlOr0 (filter (\<lambda>t. status t = CLOSED \<and> keyOf h t = k) trades)))
        else None)"
proof -
  have "filter (\<lambda>t. keyOf h t = k) (filter (\<lambda>t. status t = CLOSED) trades)
          = filter (\<lambda>t. status t = CLOSED \<and> keyOf h t = k) trades"
    unfolding filter_filter by (rule filter_cong) auto
  then show ?thesis
    unfolding monthlyData_def
    using map_of_fold [of "keyOf h" pnlOr0 "[]" "filter (\<lambda>t. status t = CLOSED) trades" k]
    by (auto simp: image_iff)
qed

lemma monthlyData_distinct: "distinct (map fst (monthlyData h trades))"
  unfolding monthlyData_def by (rule distinct_fold) simp

lemma monthlyData_keys:
  "fst ` set (monthlyData h trades) = keyOf h ` {t \<in> set trades. status t = CLOSED}"
  unfolding monthlyData_def using keys_fold [of "keyOf h" pnlOr0 "[]"]
  by auto

lemma sortedEntries_map_of: "map_of (sortedEntries h trades) = map_of (monthlyData h trades)"
proof -
  have m: "mset (sortedEntries h trades) = mset (monthlyData h trades)"
    by (simp add: sortedEntries_def sort_by_mset)
  then have "mset (map fst (sortedEntries h trades)) = mset (map fst (monthlyData h trades))"
    by (metis mset_map)
  then have "distinct (map fst (sortedEntries h trades))"
    using monthlyData_distinct [of h trades] by (metis mset_eq_imp_distinct_iff)
  moreover have "set (sortedEntries h trades) = set (monthlyData h trades)"
    using m by (metis set_mset_mset)
  ultimately show ?thesis
    using monthlyData_distinct [of h trades] by (simp add: map_of_inject_set)
qed

lemma sum_list_drop_zero:
  fixes f :: "'a \<Rightarrow> real"
  assumes "f t = 0"
  shows "sum_list (map f (filter P xs)) = sum_list (map f (filter (\<lambda>x. P x \<and> x \<noteq> t) xs))"
  using assms by (induction xs) auto

lemma sum_list_removeAll_zero:
  fixes f :: "'a \<Rightarrow> real"
  assumes "f t = 0"
  shows "sum_list (map f (removeAll t xs)) = sum_list (map f xs)"
  using assms by (induction xs) auto

lemma dayTrades_removeAll:
  "removeAll t (dayTrades trades ds) = dayTrades (removeAll t trades) ds"
  by (induction trades) (auto simp: dayTrades_def)


text \<open>
  Claim C9: let \<open>t\<close> be a trade of the collection that is closed and has no P&L. It is
  not among the trades the statistics are computed over, and the statistics are those of
  the collection without it. It is among the trades of the equity curve, and its point
  has the equity of the point before it (0 when it is the first). Its month has a bucket,
  whose P&L is the sum over the other closed trades of that month. For every day of the
  target month whose string is a prefix of its entry timestamp, the day's cell has
  \<open>hasTrades\<close> and the P&L of the day's other trades.
\<close>

theorem absent_pnl_counts_zero:
  assumes "t \<in> set trades" "status t = CLOSED" "pnl t = None"
  shows "t \<notin> set (closedTrades h trades)
       \<and> stats h trades = stats h (removeAll t trades)
       \<and> t \<in> set (sortedTrades h trades)
       \<and> length (equityCurveData h trades) = length (sortedTrades h trades)
       \<and> (\<forall>i < length (sortedTrades h trades). sortedTrades h trades ! i = t \<longrightarrow>
            point_pnl (equityCurveData h trades ! i) = None
            \<and> equity (equityCurveData h trades ! i)
                = (if i = 0 then 0 else equity (equityCurveData h trades ! (i - 1))))
       \<and> map_of (sortedEntries h trades) (keyOf h t)
           = Some (\<Sum>u\<leftarrow>filter (\<lambda>u. status u = CLOSED \<and> keyOf h u = keyOf h t \<and> u \<noteq> t) trades. pnlOr0 u)
       \<and> (\<forall>i. 1 \<le> i \<and> i \<le> daysInMonth year month
              \<and> prefix (dateStrOf year month i) (entryDate t) \<longrightarrow>
            (\<exists>c. days (calendarData h trades dailyNotes year month) ! (firstDayOfWeek year month + i - 1)
                   = Some c
               \<and> hasTrades c
               \<and> day_pnl c = (\<Sum>u\<leftarrow>removeAll t (dayTrades trades (dateStrOf year month i)). pnlOr0 u)))"
proof -
  have z: "pnlOr0 t = 0" using assms(3) by (simp add: pnlOr0_def)
  have a1: "t \<notin> set (closedTrades h trades)"
    using assms(3) by (simp add: closedTrades_def sort_by_set closedSubset_def)
  have "closedTrades h trades = closedTrades h (removeAll t trades)"
    using assms(3) by (simp add: closedTrades_def closedSubset_removeAll)
  then have a2: "stats h trades = stats h (removeAll t trades)"
    by (rule stats_closedTrades_cong)
  have b1: "t \<in> set (sortedTrades h trades)"
    using assms(1,2) by (simp add: sortedTrades_def sort_by_set)
  have b2: "length (equityCurveData h trades) = length (sortedTrades h trades)"
    by (simp add: equityCurveData_def equityPoints_length)
  have b3: "point_pnl (equityCurveData h trades ! i) = None
            \<and> equity (equityCurveData h trades ! i)
                = (if i = 0 then 0 else equity (equityCurveData h trades ! (i - 1)))"
    if "i < length (sortedTrades h trades)" "sortedTrades h trades ! i = t" for i
    using equityPoints_nth [OF that(1), of h 0] that(2) z assms(3)
    by (simp add: equityCurveData_def)
  have "\<exists>u\<in>set trades. status u = CLOSED \<and> keyOf h u = keyOf h t"
    using assms(1,2) by blast
  then have "map_of (sortedEntries h trades) (keyOf h t)
      = Some (\<Sum>u\<leftarrow>filter (\<lambda>u. status u = CLOSED \<and> keyOf h u = keyOf h t) trades. pnlOr0 u)"
    by (simp add: sortedEntries_map_of monthlyData_map_of)
  moreover have "(\<Sum>u\<leftarrow>filter (\<lambda>u. status u = CLOSED \<and> keyOf h u = keyOf h t) trades. pnlOr0 u)
      = (\<Sum>u\<leftarrow>filter (\<lambda>u. (status u = CLOSED \<and> keyOf h u = keyOf h t) \<and> u \<noteq> t) trades. pnlOr0 u)"
    using z by (rule sum_list_drop_zero)
  ultimately have c: "map_of (sortedEntries h trades) (keyOf h t)
      = Some (\<Sum>u\<leftarrow>filter (\<lambda>u. status u = CLOSED \<and> keyOf h u = keyOf h t \<and> u \<noteq> t) trades. pnlOr0 u)"
    by (simp add: conj_assoc)
  have d: "\<exists>c. days (calendarData h trades dailyNotes year month) ! (firstDayOfWeek year month + i - 1)
                   = Some c
               \<and> hasTrades c
               \<and> day_pnl c = (\<Sum>u\<leftarrow>removeAll t (dayTrades trades (dateStrOf year month i)). pnlOr0 u)"
    if "1 \<le> i \<and> i \<le> daysInMonth year month \<and> prefix (dateStrOf year month i) (entryDate t)" for i
  proof -
    let ?c = "dayCell trades dailyNotes year month i"
    have n: "days (calendarData h trades dailyNotes year month) ! (firstDayOfWeek year month + i - 1)
               = Some ?c"
      using that by (intro days_nth) simp_all
    have ht: "hasTrades ?c"
      unfolding dayCell_fields(4) using that assms(1,2) by blast
    have p: "day_pnl ?c = (\<Sum>u\<leftarrow>removeAll t (dayTrades trades (dateStrOf year month i)). pnlOr0 u)"
      unfolding dayCell_fields(3) using z by (rule sum_list_removeAll_zero [symmetric])
    show ?thesis by (rule exI [of _ ?c]) (intro conjI n ht p)
  qed
  have b3': "\<forall>i < length (sortedTrades h trades). sortedTrades h trades ! i = t \<longrightarrow>
            point_pnl (equityCurveData h trades ! i) = None
            \<and> equity (equityCurveData h trades ! i)
                = (if i = 0 then 0 else equity (equityCurveData h trades ! (i - 1)))"
    using b3 by blast
  have d': "\<forall>i. 1 \<le> i \<and> i \<le> daysInMonth year month
              \<and> prefix (dateStrOf year month i) (entryDate t) \<longrightarrow>
            (\<exists>c. days (calendarData h trades dailyNotes year month) ! (firstDayOfWeek year month + i - 1)
                   = Some c
               \<and> hasTrades c
               \<and> day_pnl c = (\<Sum>u\<leftarrow>removeAll t (dayTrades trades (dateStrOf year month i)). pnlOr0 u))"
    using d by blast
  show ?thesis by (intro conjI a1 a2 b1 b2 b3' c d')
qed

theorem absent_pnl_counts_zero_witness:
  "closedTrade ''c'' ''2024-02-06'' None \<in> set febTrades
   \<and> stats isoHost febTrades = stats isoHost (removeAll (closedTrade ''c'' ''2024-02-06'' None) febTrades)
   \<and> map_of (sortedEntries isoHost febTrades) ''2024-02'' = Some 60
   \<and> (\<exists>c. days (calendarData isoHost febTrades febNotes 2024 1) ! 9 = Some c
          \<and> hasTrades c \<and> day_pnl c = 0)"
proof -
  let ?t = "closedTrade ''c'' ''2024-02-06'' None"
  have m: "?t \<in> set febTrades" by (simp add: febTrades_def)
  have s: "status ?t = CLOSED" and p: "pnl ?t = None" by (simp_all add: closedTrade_def)
  note w = absent_pnl_counts_zero [OF m s p, of isoHost 2024 1 febNotes]
  have k: "keyOf isoHost u = ''2024-02''" if "u \<in> set febTrades" for u
    using that febTrades_keys by (auto simp: febTrades_def)
  have "filter (\<lambda>u. status u = CLOSED \<and> keyOf isoHost u = keyOf isoHost ?t \<and> u \<noteq> ?t) febTrades
      = [closedTrade ''a'' ''2024-02-05'' (Some 100), closedTrade ''b'' ''2024-02-05'' (Some (- 40))]"
    using k by (simp add: febTrades_def closedTrade_def)
  then have e: "map_of (sortedEntries isoHost febTrades) ''2024-02'' = Some 60"
    using w k [OF m] by (simp add: closedTrade_def pnlOr0_def)
  have r: "1 \<le> (6::nat) \<and> 6 \<le> daysInMonth 2024 1 \<and> prefix (dateStrOf 2024 1 6) (entryDate ?t)"
    by (simp add: feb2024 closedTrade_def)
  obtain c where c: "days (calendarData isoHost febTrades febNotes 2024 1) ! (firstDayOfWeek 2024 1 + 6 - 1) = Some c"
    "hasTrades c" "day_pnl c = (\<Sum>u\<leftarrow>removeAll ?t (dayTrades febTrades (dateStrOf 2024 1 6)). pnlOr0 u)"
    using w r by blast
  have "dayTrades febTrades ''2024-02-06'' = [?t]"
    by (simp add: dayTrades_def febTrades_def closedTrade_def startsWith_def)
  then have "day_pnl c = 0" using c(3) by (simp add: feb2024)
  moreover have "days (calendarData isoHost febTrades febNotes 2024 1) ! 9 = Some c"
    using c(1) by (simp add: feb2024)
  ultimately show ?thesis using m w e c(2) by blast
qed

section \<open>Monthly aggregation: proofs\<close>

lemma ymKey_eq:
  assumes "0 \<le> y"
  shows "ymKey (y, m) = String_nat (nat y) @ ''-'' @ padStart2 (String_nat (m + 1))"
  using assms by (simp add: ymKey_def String_int_def)

lemma ymKey_mono:
  assumes "1000 \<le> y" "y \<le> 9999" "m < 12" "1000 \<le> y'" "y' \<le> 9999" "m' < 12"
    and "(y, m) < (y', m')"
  shows "ymKey (y, m) < ymKey (y', m')"
proof -
  have l: "length (String_nat (nat y)) = 4" "length (String_nat (nat y')) = 4"
    using assms(1,2,4,5) by (simp_all add: String_nat_length_4)
  have k: "ymKey (y, m) = String_nat (nat y) @ ''-'' @ padStart2 (String_nat (m + 1))"
    "ymKey (y', m') = String_nat (nat y') @ ''-'' @ padStart2 (String_nat (m' + 1))"
    using assms(1,4) by (simp_all add: ymKey_eq)
  have "y < y' \<or> y = y' \<and> m < m'"
    using assms(7) by (auto simp: less_prod_def)
  then consider "y < y'" | "y = y'" "m < m'" by blast
  then show ?thesis
  proof cases
    case 1
    then have "nat y < nat y'" using assms(1) by simp
    then have "String_nat (nat y) < String_nat (nat y')"
      using l by (intro String_nat_mono) simp_all
    then show ?thesis unfolding k using l by (intro less_append_same_length) simp_all
  next
    case 2
    have d: "(m + 1) div 10 < 10" "(m + 1) mod 10 < 10" "(m' + 1) div 10 < 10" "(m' + 1) mod 10 < 10"
      using assms(3,6) by simp_all
    have "(m + 1) div 10 < (m' + 1) div 10
        \<or> (m + 1) div 10 = (m' + 1) div 10 \<and> (m + 1) mod 10 < (m' + 1) mod 10"
      using 2(2) assms(6) by (rule month_digits_less)
    then have "padStart2 (String_nat (m + 1)) < padStart2 (String_nat (m' + 1))"
      using assms(3,6) d by (auto simp add: pad2_digits digitChar_less)
    then show ?thesis unfolding k using 2(1) by (simp add: less_append_prefix)
  qed
qed

lemma compareKeys_le: "(compareKeys a b \<le> 0) = (fst a \<le> fst b)"
  by (auto simp: compareKeys_def localeCompare_def)

lemma insert_by_keys_sorted:
  "sorted (map fst ys) \<Longrightarrow> sorted (map fst (insert_by compareKeys x ys))"
proof (induction ys)
  case Nil
  then show ?case by simp
next
  case (Cons y ys)
  have s: "set (insert_by compareKeys x ys) = insert x (set ys)"
    using insert_by_mset [of compareKeys x ys] by (metis set_mset_mset set_mset_add_mset_insert)
  show ?case
  proof (cases "compareKeys x y \<le> 0")
    case True
    then show ?thesis using Cons.prems by (auto simp: compareKeys_le)
  next
    case False
    then have "fst y \<le> fst x" by (simp add: compareKeys_le)
    then show ?thesis using False Cons s by auto
  qed
qed

lemma sort_by_keys_sorted: "sorted (map fst (sort_by compareKeys xs))"
  unfolding sort_by_def by (induction xs) (simp_all add: insert_by_keys_sorted)

lemma sortedEntries_distinct: "distinct (map fst (sortedEntries h trades))"
proof -
  have "mset (map fst (sortedEntries h trades)) = mset (map fst (monthlyData h trades))"
    by (simp add: sortedEntries_def sort_by_mset)
  then show ?thesis using monthlyData_distinct [of h trades] by (metis mset_eq_imp_distinct_iff)
qed

lemma sortedEntries_strict: "sorted_wrt (<) (map fst (sortedEntries h trades))"
  unfolding strict_sorted_iff sortedEntries_def
  using sort_by_keys_sorted sortedEntries_distinct [of h trades]
  by (simp add: sortedEntries_def)

lemma sortedEntries_keys:
  "set (map fst (sortedEntries h trades)) = keyOf h ` {t \<in> set trades. status t = CLOSED}"
  using monthlyData_keys [of h trades] by (simp add: sortedEntries_def sort_by_set)

lemma fourDigit_closed:
  assumes "fourDigitYears h trades" "t \<in> set trades" "status t = CLOSED"
  shows "\<exists>tm. newDate h (entryDate t) = ValidDate tm (fst (entryYM h t)) (snd (entryYM h t))"
    and "1000 \<le> fst (entryYM h t)" "fst (entryYM h t) \<le> 9999" "snd (entryYM h t) < 12"
  using assms
  by (auto simp: fourDigitYears_def list_all_iff entryYM_def split: jsDate.splits)

lemma keyOf_ymKey:
  assumes "fourDigitYears h trades" "t \<in> set trades" "status t = CLOSED"
  shows "keyOf h t = ymKey (entryYM h t)"
proof -
  obtain tm where "newDate h (entryDate t) = ValidDate tm (fst (entryYM h t)) (snd (entryYM h t))"
    using fourDigit_closed(1) [OF assms] by blast
  then show ?thesis by (simp add: keyOf_def ymKey_def)
qed

lemma ymKey_inj_closed:
  assumes "fourDigitYears h trades" "t \<in> set trades" "status t = CLOSED"
    and "u \<in> set trades" "status u = CLOSED"
  shows "(ymKey (entryYM h t) = ymKey (entryYM h u)) = (entryYM h t = entryYM h u)"
proof -
  let ?a = "entryYM h t" and ?b = "entryYM h u"
  have lt: "ymKey ?a < ymKey ?b" if "?a < ?b"
    using ymKey_mono [of "fst ?a" "snd ?a" "fst ?b" "snd ?b"] that
      fourDigit_closed(2,3,4) [OF assms(1,2,3)] fourDigit_closed(2,3,4) [OF assms(1,4,5)]
    by simp
  have gt: "ymKey ?b < ymKey ?a" if "?b < ?a"
    using ymKey_mono [of "fst ?b" "snd ?b" "fst ?a" "snd ?a"] that
      fourDigit_closed(2,3,4) [OF assms(1,2,3)] fourDigit_closed(2,3,4) [OF assms(1,4,5)]
    by simp
  show ?thesis using lt gt by (metis less_irrefl linorder_neqE)
qed

lemma map_snd_map_of:
  assumes "distinct (map fst xs)"
  shows "map snd xs = map (\<lambda>k. the (map_of xs k)) (map fst xs)"
proof -
  have "map (\<lambda>p. the (map_of xs (fst p))) xs = map snd xs"
  proof (rule map_cong [OF refl])
    fix p assume "p \<in> set xs"
    then have "(fst p, snd p) \<in> set xs" by simp
    then have "map_of xs (fst p) = Some (snd p)" using assms by (rule map_of_is_SomeI [rotated])
    then show "the (map_of xs (fst p)) = snd p" by simp
  qed
  then show ?thesis by (simp only: map_map comp_def)
qed

lemma monthlyChartData_pnl: "map month_pnl (monthlyChartData h trades) = map snd (sortedEntries h trades)"
  by (simp add: monthlyChartData_def split_def comp_def)

lemma sortedEntries_value:
  "map_of (sortedEntries h trades) k
     = (if \<exists>t\<in>set trades. status t = CLOSED \<and> keyOf h t = k
        then Some (sum_list (map pnlOr0 (filter (\<lambda>t. status t = CLOSED \<and> keyOf h t = k) trades)))
        else None)"
  by (simp only: sortedEntries_map_of monthlyData_map_of)

lemma chronological_keys:
  assumes "fourDigitYears h trades"
  shows "map fst (sortedEntries h trades)
           = map ymKey (sorted_list_of_set (entryYM h ` {t \<in> set trades. status t = CLOSED}))"
proof -
  let ?A = "entryYM h ` {t \<in> set trades. status t = CLOSED}"
  let ?L = "sorted_list_of_set ?A"
  have fin: "finite ?A" by simp
  have sL: "sorted_wrt (<) ?L" by (rule strict_sorted_list_of_set)
  have setL: "set ?L = ?A" using fin by simp
  have range: "1000 \<le> fst a \<and> fst a \<le> 9999 \<and> snd a < 12" if "a \<in> ?A" for a
    using that fourDigit_closed(2,3,4) [OF assms] by auto
  have mono: "ymKey a < ymKey b" if "a \<in> set ?L" "b \<in> set ?L" "a < b" for a b
    using ymKey_mono [of "fst a" "snd a" "fst b" "snd b"] that range setL by simp
  have "sorted_wrt (\<lambda>a b. ymKey a < ymKey b) ?L"
    using sL mono by (rule sorted_wrt_mono_rel [rotated])
  then have s1: "sorted_wrt (<) (map ymKey ?L)" by (simp only: sorted_wrt_map)
  have "keyOf h ` {t \<in> set trades. status t = CLOSED} = ymKey ` ?A"
    using keyOf_ymKey [OF assms] by (auto simp: image_iff)
  moreover have "fst ` set (sortedEntries h trades) = keyOf h ` {t \<in> set trades. status t = CLOSED}"
    using sortedEntries_keys [of h trades] by simp
  ultimately have e: "set (map fst (sortedEntries h trades)) = set (map ymKey ?L)"
    using setL by simp
  show ?thesis using s1 sortedEntries_strict e by (rule strict_sorted_equal)
qed

lemma chronological_pnl:
  assumes "fourDigitYears h trades"
  shows "map month_pnl (monthlyChartData h trades)
           = map (\<lambda>ym. \<Sum>t\<leftarrow>filter (\<lambda>t. status t = CLOSED \<and> entryYM h t = ym) trades. pnlOr0 t)
               (sorted_list_of_set (entryYM h ` {t \<in> set trades. status t = CLOSED}))"
proof -
  let ?A = "entryYM h ` {t \<in> set trades. status t = CLOSED}"
  let ?L = "sorted_list_of_set ?A"
  let ?SE = "sortedEntries h trades"
  have setL: "set ?L = ?A" by simp
  have "map snd ?SE = map (\<lambda>k. the (map_of ?SE k)) (map fst ?SE)"
    using sortedEntries_distinct by (rule map_snd_map_of)
  also have "\<dots> = map (\<lambda>ym. the (map_of ?SE (ymKey ym))) ?L"
    by (simp only: chronological_keys [OF assms] map_map comp_def)
  also have "\<dots> = map (\<lambda>ym. \<Sum>t\<leftarrow>filter (\<lambda>t. status t = CLOSED \<and> entryYM h t = ym) trades. pnlOr0 t) ?L"
  proof (rule map_cong [OF refl])
    fix ym assume "ym \<in> set ?L"
    then obtain u where u: "u \<in> set trades" "status u = CLOSED" "ym = entryYM h u"
      using setL by auto
    have ex: "\<exists>t\<in>set trades. status t = CLOSED \<and> keyOf h t = ymKey ym"
      using u keyOf_ymKey [OF assms u(1,2)] by auto
    have "filter (\<lambda>t. status t = CLOSED \<and> keyOf h t = ymKey ym) trades
            = filter (\<lambda>t. status t = CLOSED \<and> entryYM h t = ym) trades"
    proof (rule filter_cong [OF refl])
      fix t assume t: "t \<in> set trades"
      show "(status t = CLOSED \<and> keyOf h t = ymKey ym) = (status t = CLOSED \<and> entryYM h t = ym)"
      proof (cases "status t = CLOSED")
        case True
        then show ?thesis
          using keyOf_ymKey [OF assms t True] ymKey_inj_closed [OF assms t True u(1,2)] u(3)
          by simp
      next
        case False
        then show ?thesis by simp
      qed
    qed
    then show "the (map_of ?SE (ymKey ym))
        = (\<Sum>t\<leftarrow>filter (\<lambda>t. status t = CLOSED \<and> entryYM h t = ym) trades. pnlOr0 t)"
      using ex by (simp add: sortedEntries_value)
  qed
  finally show ?thesis by (simp only: monthlyChartData_pnl)
qed

lemma scenarioE:
  "monthlyChartData isoHost
      [closedTrade ''a'' ''2024-01-05'' (Some 100), closedTrade ''b'' ''2024-01-20'' (Some (- 40))]
     = [\<lparr>name = ''Jan 24'', month_pnl = 60\<rparr>]"
  by code_simp

text \<open>
  Claim C6 says that the monthly buckets are emitted in ascending chronological order,
  the string order of the zero-padded \<^verbatim>\<open>YYYY-MM\<close> key. The source builds the key under
  the comment \<^verbatim>\<open>Key format YYYY-MM for sorting\<close> and pads the month, but prints the year as
  it is: of two closed trades entered on 2024-01-05 and 0999-06-01 (a date the form's
  date input can hold) the keys are \<^verbatim>\<open>2024-01\<close> and \<^verbatim>\<open>999-06\<close>, and the bucket of January
  2024 is emitted before the bucket of June 999.
\<close>

theorem monthly_key_unpadded_year:
  "monthlyChartData isoHost
      [closedTrade ''a'' ''2024-01-05'' (Some 100), closedTrade ''b'' ''0999-06-01'' (Some 5)]
     = [\<lparr>name = ''Jan 24'', month_pnl = 100\<rparr>, \<lparr>name = ''Jun 99'', month_pnl = 5\<rparr>]
   \<and> map fst (sortedEntries isoHost
      [closedTrade ''a'' ''2024-01-05'' (Some 100), closedTrade ''b'' ''0999-06-01'' (Some 5)])
     = [''2024-01'', ''999-06'']
   \<and> entryYM isoHost (closedTrade ''a'' ''2024-01-05'' (Some 100)) = (2024, 0)
   \<and> entryYM isoHost (closedTrade ''b'' ''0999-06-01'' (Some 5)) = (999, 5)
   \<and> ((999, 5) :: int \<times> nat) < (2024, 0)"
  by code_simp

text \<open>
  What the aggregation does otherwise: for every host and trade collection, the closed
  trades are bucketed
  by the month key of their entry date and the P&L is summed per bucket (an absent P&L
  counting 0); the buckets are emitted in strictly ascending order of the key as a
  string, each with the label of its key. When every closed trade has a valid entry date
  in a year of four digits, the emitted buckets are the (year, month) pairs of the closed
  trades in ascending chronological order, each with the sum of the P&L of the closed
  trades of that year and month. On the host of the examples, closed trades entered on
  2024-01-05 with P&L 100 and on 2024-01-20 with P&L -40 give the single bucket
  \<^verbatim>\<open>Jan 24\<close> with P&L 60.
\<close>

lemma monthly_buckets_sorted:
  "sorted_wrt (<) (map fst (sortedEntries h trades))
   \<and> (\<forall>k. map_of (sortedEntries h trades) k
         = (if \<exists>t\<in>set trades. status t = CLOSED \<and> keyOf h t = k
            then Some (\<Sum>t\<leftarrow>filter (\<lambda>t. status t = CLOSED \<and> keyOf h t = k) trades. pnlOr0 t)
            else None))
   \<and> monthlyChartData h trades
       = map (\<lambda>(k, p). \<lparr>name = bucketLabel h k, month_pnl = p\<rparr>) (sortedEntries h trades)
   \<and> (fourDigitYears h trades \<longrightarrow>
        map fst (sortedEntries h trades)
          = map ymKey (sorted_list_of_set (entryYM h ` {t \<in> set trades. status t = CLOSED}))
        \<and> map month_pnl (monthlyChartData h trades)
          = map (\<lambda>ym. \<Sum>t\<leftarrow>filter (\<lambda>t. status t = CLOSED \<and> entryYM h t = ym) trades. pnlOr0 t)
              (sorted_list_of_set (entryYM h ` {t \<in> set trades. status t = CLOSED})))
   \<and> monthlyChartData isoHost
        [closedTrade ''a'' ''2024-01-05'' (Some 100), closedTrade ''b'' ''2024-01-20'' (Some (- 40))]
       = [\<lparr>name = ''Jan 24'', month_pnl = 60\<rparr>]"
proof -
  have v: "\<forall>k. map_of (sortedEntries h trades) k
         = (if \<exists>t\<in>set trades. status t = CLOSED \<and> keyOf h t = k
            then Some (\<Sum>t\<leftarrow>filter (\<lambda>t. status t = CLOSED \<and> keyOf h t = k) trades. pnlOr0 t)
            else None)"
    using sortedEntries_value [of h trades] by blast
  have d: "monthlyChartData h trades
       = map (\<lambda>(k, p). \<lparr>name = bucketLabel h k, month_pnl = p\<rparr>) (sortedEntries h trades)"
    by (simp add: monthlyChartData_def)
  have c: "fourDigitYears h trades \<longrightarrow>
        map fst (sortedEntries h trades)
          = map ymKey (sorted_list_of_set (entryYM h ` {t \<in> set trades. status t = CLOSED}))
        \<and> map month_pnl (monthlyChartData h trades)
          = map (\<lambda>ym. \<Sum>t\<leftarrow>filter (\<lambda>t. status t = CLOSED \<and> entryYM h t = ym) trades. pnlOr0 t)
              (sorted_list_of_set (entryYM h ` {t \<in> set trades. status t = CLOSED}))"
    using chronological_keys [of h trades] chronological_pnl [of h trades] by blast
  show ?thesis by (intro conjI sortedEntries_strict v d c scenarioE)
qed

lemma monthly_buckets_sorted_example:
  "fourDigitYears isoHost
      [closedTrade ''a'' ''2024-03-05'' (Some 100), closedTrade ''b'' ''2023-12-20'' (Some (- 40)),
       closedTrade ''c'' ''2024-03-06'' (Some 7)]
   \<and> map fst (sortedEntries isoHost
      [closedTrade ''a'' ''2024-03-05'' (Some 100), closedTrade ''b'' ''2023-12-20'' (Some (- 40)),
       closedTrade ''c'' ''2024-03-06'' (Some 7)]) = [''2023-12'', ''2024-03'']
   \<and> map month_pnl (monthlyChartData isoHost
      [closedTrade ''a'' ''2024-03-05'' (Some 100), closedTrade ''b'' ''2023-12-20'' (Some (- 40)),
       closedTrade ''c'' ''2024-03-06'' (Some 7)]) = [- 40, 107]"
proof -
  let ?ts = "[closedTrade ''a'' ''2024-03-05'' (Some 100), closedTrade ''b'' ''2023-12-20'' (Some (- 40)),
       closedTrade ''c'' ''2024-03-06'' (Some 7)]"
  have f: "fourDigitYears isoHost ?ts" by code_simp
  have ym: "map (entryYM isoHost) ?ts = [(2024, 2), (2023, 11), (2024, 2)]" by code_simp
  have st: "map status ?ts = [CLOSED, CLOSED, CLOSED]" by (simp add: closedTrade_def)
  have "{t \<in> set ?ts. status t = CLOSED} = set ?ts"
    by (auto simp: closedTrade_def)
  moreover have "entryYM isoHost ` set ?ts = set (map (entryYM isoHost) ?ts)"
    by (simp only: set_map)
  ultimately have A: "entryYM isoHost ` {t \<in> set ?ts. status t = CLOSED} = {(2023, 11), (2024, 2)}"
    unfolding ym by auto
  have L: "sorted_list_of_set {(2023, 11), (2024, 2) :: int \<times> nat} = [(2023, 11), (2024, 2)]"
    by (simp add: less_eq_prod_def less_prod_def)
  have K: "map ymKey [(2023, 11), (2024, 2)] = [''2023-12'', ''2024-03'']" by code_simp
  have P: "map (\<lambda>ym. \<Sum>t\<leftarrow>filter (\<lambda>t. status t = CLOSED \<and> entryYM isoHost t = ym) ?ts. pnlOr0 t)
             [(2023, 11), (2024, 2)] = [- 40, 107]"
    using ym st by (simp add: pnlOr0_def closedTrade_def)
  have g: "map fst (sortedEntries isoHost ?ts)
          = map ymKey (sorted_list_of_set (entryYM isoHost ` {t \<in> set ?ts. status t = CLOSED}))
        \<and> map month_pnl (monthlyChartData isoHost ?ts)
          = map (\<lambda>ym. \<Sum>t\<leftarrow>filter (\<lambda>t. status t = CLOSED \<and> entryYM isoHost t = ym) ?ts. pnlOr0 t)
              (sorted_list_of_set (entryYM isoHost ` {t \<in> set ?ts. status t = CLOSED}))"
    using monthly_buckets_sorted [of isoHost ?ts] f by blast
  have k: "map fst (sortedEntries isoHost ?ts) = [''2023-12'', ''2024-03'']"
    using g unfolding A L K by (rule conjunct1)
  have p: "map month_pnl (monthlyChartData isoHost ?ts) = [- 40, 107]"
    using g unfolding A L P by (rule conjunct2)
  show ?thesis by (intro conjI f k p)
qed

end
